theory Spec2Isabelle
  imports Complex_Main
begin

section \<open>Matrix factorization by momentum gradient descent (mf.py)\<close>

text \<open>
  The development embeds \<^verbatim>\<open>MatrixFactorization/mf.py\<close>. Python exceptions are
  values of \<open>pyerror\<close>; a function that can raise returns \<open>pyerror + 'a\<close>.
\<close>

datatype pyerror =
    KeyError      \<comment> \<open>a missing dictionary key or dataframe column\<close>
  | IndexError    \<comment> \<open>numpy: an index outside an array's axis\<close>
  | ValueError    \<comment> \<open>scipy/numpy: index beyond the declared shape, incompatible shapes\<close>

subsection \<open>The ID encoder: \<^verbatim>\<open>proc_col\<close>\<close>

text \<open>
  \<^verbatim>\<open>col.unique()\<close> returns the distinct values of the column in order of first
  appearance (pandas walks the column once with a table of the values seen so far).
\<close>

fun unique_seen :: "'k list \<Rightarrow> 'k list \<Rightarrow> 'k list" where
  "unique_seen seen [] = []"
| "unique_seen seen (x # xs) =
     (if x \<in> set seen then unique_seen seen xs else x # unique_seen (x # seen) xs)"

definition unique :: "'k list \<Rightarrow> 'k list" where
  "unique col = unique_seen [] col"

text \<open>
  \<^verbatim>\<open>{o: i for i, o in enumerate(uniq)}\<close>: the dictionary is filled pair by pair,
  a later pair with the same key overwriting an earlier one.
\<close>

definition dict_of_enumerate :: "'k list \<Rightarrow> ('k \<rightharpoonup> nat)" where
  "dict_of_enumerate uniq = fold (\<lambda>(i, k) m. m(k \<mapsto> i)) (enumerate 0 uniq) Map.empty"

text \<open>\<^verbatim>\<open>[name2idx[x] for x in col]\<close>: a lookup of a missing key raises KeyError.\<close>

fun lookup_all :: "('k \<rightharpoonup> nat) \<Rightarrow> 'k list \<Rightarrow> pyerror + nat list" where
  "lookup_all m [] = Inr []"
| "lookup_all m (x # xs) =
     (case m x of
        None \<Rightarrow> Inl KeyError
      | Some i \<Rightarrow> (case lookup_all m xs of Inl e \<Rightarrow> Inl e | Inr is \<Rightarrow> Inr (i # is)))"

definition proc_col :: "'k list \<Rightarrow> pyerror + (('k \<rightharpoonup> nat) \<times> nat list \<times> nat)" where
  "proc_col col =
     (let uniq = unique col;
          name2idx = dict_of_enumerate uniq
      in case lookup_all name2idx col of
           Inl e \<Rightarrow> Inl e
         | Inr idx \<Rightarrow> Inr (name2idx, idx, length uniq))"

subsection \<open>Encoding a validation table: \<^verbatim>\<open>encode_new_data\<close>\<close>

text \<open>
  A ratings table before encoding is a list of rows: the \<^verbatim>\<open>userId\<close> cell, the
  \<^verbatim>\<open>movieId\<close> cell and the rest of the row. \<^verbatim>\<open>Series.replace(dict)\<close> maps
  every cell that is a key of the dictionary to the key's value, all keys at once, and
  leaves any other cell as it is; so a cell of a replaced column is either still a raw
  key or an index.
\<close>

datatype 'k cell = Raw 'k | Idx nat

definition replace_cell :: "('k \<rightharpoonup> nat) \<Rightarrow> 'k \<Rightarrow> 'k cell" where
  "replace_cell d k = (case d k of None \<Rightarrow> Raw k | Some i \<Rightarrow> Idx i)"

text \<open>
  \<^verbatim>\<open>df_val.userId.replace(user2idx, inplace=True)\<close> takes a Series from the frame
  and replaces in that Series. What this does to the frame is decided by pandas, not by
  the source: without copy-on-write the Series is a view of the column and the frame
  changes with it; with copy-on-write (the only mode of pandas 3) the Series is a copy,
  the replacement stays in the copy, a warning is issued, and the frame keeps its raw
  keys. The mode is therefore a parameter of the model.
\<close>

definition replace_inplace_on_column :: "bool \<Rightarrow> ('k \<rightharpoonup> nat) \<Rightarrow> 'k \<Rightarrow> 'k cell" where
  "replace_inplace_on_column copy_on_write d k =
     (if copy_on_write then Raw k else replace_cell d k)"

text \<open>
  The function assigns the encoded columns to \<^verbatim>\<open>df_train\<close> (a mutation of the
  caller's training table, by column assignment, in either mode) and returns the new
  \<^verbatim>\<open>df_val\<close>; the model returns the validation table and the training table as it
  is left. \<^verbatim>\<open>isin(dict)\<close> tests membership in the dictionary's keys.
\<close>

definition encode_new_data ::
  "bool \<Rightarrow> ('u \<times> 'm \<times> 'r) list \<Rightarrow> ('u \<times> 'm \<times> 'r) list \<Rightarrow>
     pyerror + (('u cell \<times> 'm cell \<times> 'r) list \<times> (nat \<times> nat \<times> 'r) list)" where
  "encode_new_data copy_on_write df_val df_train =
     (case proc_col (map fst df_train) of
        Inl e \<Rightarrow> Inl e
      | Inr (user2idx, users, num_users) \<Rightarrow>
          (case proc_col (map (fst \<circ> snd) df_train) of
             Inl e \<Rightarrow> Inl e
           | Inr (mov2idx, movies, num_movies) \<Rightarrow>
               (let df_train' = zip users (zip movies (map (snd \<circ> snd) df_train));
                    kept = filter (\<lambda>(u, m, r). u \<in> dom user2idx \<and> m \<in> dom mov2idx) df_val
                in Inr (map (\<lambda>(u, m, r).
                             (replace_inplace_on_column copy_on_write user2idx u,
                              replace_inplace_on_column copy_on_write mov2idx m, r)) kept,
                        df_train'))))"

subsection \<open>Floating-point values\<close>

text \<open>
  A float64 is idealised: a finite value is an exact real (no rounding, no overflow, one
  zero), and the two infinities and NaN are kept, so that a division by a zero count is
  the value numpy computes and not HOL's \<open>x / 0 = 0\<close>.
\<close>

datatype fval = Fin real | PInf | NInf | NaN

text \<open>The infinity with the sign of \<open>x\<close>; NaN at zero (\<open>0 * inf\<close>, \<open>0 / 0\<close>).\<close>

definition sgn_inf :: "real \<Rightarrow> fval" where
  "sgn_inf x = (if 0 < x then PInf else if x < 0 then NInf else NaN)"

instantiation fval :: comm_monoid_add
begin

definition zero_fval :: fval where
  "zero_fval = Fin 0"

fun plus_fval :: "fval \<Rightarrow> fval \<Rightarrow> fval" where
  "plus_fval (Fin a) (Fin b) = Fin (a + b)"
| "plus_fval NaN _ = NaN"
| "plus_fval _ NaN = NaN"
| "plus_fval PInf NInf = NaN"
| "plus_fval NInf PInf = NaN"
| "plus_fval PInf _ = PInf"
| "plus_fval _ PInf = PInf"
| "plus_fval NInf _ = NInf"
| "plus_fval _ NInf = NInf"

instance
proof (standard, goal_cases)
  case (1 x y z)
  then show ?case by (cases x; cases y; cases z; simp)
next
  case (2 x y)
  then show ?case by (cases x; cases y; simp)
next
  case (3 x)
  then show ?case unfolding zero_fval_def by (cases x; simp)
qed

end

fun fneg :: "fval \<Rightarrow> fval" where
  "fneg (Fin a) = Fin (- a)"
| "fneg PInf = NInf"
| "fneg NInf = PInf"
| "fneg NaN = NaN"

definition fsub :: "fval \<Rightarrow> fval \<Rightarrow> fval" where
  "fsub a b = a + fneg b"

fun fmul :: "fval \<Rightarrow> fval \<Rightarrow> fval" where
  "fmul (Fin a) (Fin b) = Fin (a * b)"
| "fmul NaN _ = NaN"
| "fmul _ NaN = NaN"
| "fmul (Fin a) PInf = sgn_inf a"
| "fmul (Fin a) NInf = sgn_inf (- a)"
| "fmul PInf (Fin b) = sgn_inf b"
| "fmul NInf (Fin b) = sgn_inf (- b)"
| "fmul PInf PInf = PInf"
| "fmul PInf NInf = NInf"
| "fmul NInf PInf = NInf"
| "fmul NInf NInf = PInf"

text \<open>
  Division of a float by a count \<open>N\<close> (a Python int, never negative). numpy does not
  raise on a zero divisor: it gives NaN for \<open>0 / 0\<close> and an infinity otherwise.
\<close>

fun fdiv_count :: "fval \<Rightarrow> nat \<Rightarrow> fval" where
  "fdiv_count (Fin a) n = (if n = 0 then sgn_inf a else Fin (a / real n))"
| "fdiv_count PInf n = PInf"
| "fdiv_count NInf n = NInf"
| "fdiv_count NaN n = NaN"

subsection \<open>Dense arrays\<close>

text \<open>
  A two-dimensional numpy array: its rows, and its number of columns (which the rows do not
  determine when there are none). The array is well formed when every row has that length.
\<close>

record ndarray =
  shape1 :: nat
  rowlist :: "fval list list"

definition shape0 :: "ndarray \<Rightarrow> nat" where
  "shape0 A = length (rowlist A)"

definition wf_ndarray :: "ndarray \<Rightarrow> bool" where
  "wf_ndarray A = list_all (\<lambda>r. length r = shape1 A) (rowlist A)"

text \<open>
  \<^verbatim>\<open>emb[idx]\<close> with an integer array selects rows; an index counts from the end when
  negative and raises IndexError outside \<open>[-n, n)\<close>.
\<close>

definition get_row :: "ndarray \<Rightarrow> int \<Rightarrow> pyerror + fval list" where
  "get_row A i =
     (let n = int (shape0 A)
      in if 0 \<le> i \<and> i < n then Inr (rowlist A ! nat i)
         else if - n \<le> i \<and> i < 0 then Inr (rowlist A ! nat (i + n))
         else Inl IndexError)"

fun get_rows :: "ndarray \<Rightarrow> int list \<Rightarrow> pyerror + fval list list" where
  "get_rows A [] = Inr []"
| "get_rows A (i # is) =
     (case get_row A i of
        Inl e \<Rightarrow> Inl e
      | Inr r \<Rightarrow> (case get_rows A is of Inl e \<Rightarrow> Inl e | Inr rs \<Rightarrow> Inr (r # rs)))"

definition take_rows :: "ndarray \<Rightarrow> int list \<Rightarrow> pyerror + ndarray" where
  "take_rows A idx =
     (case get_rows A idx of
        Inl e \<Rightarrow> Inl e
      | Inr rs \<Rightarrow> Inr \<lparr>shape1 = shape1 A, rowlist = rs\<rparr>)"

text \<open>
  An elementwise operation on two arrays broadcasts: along each axis the two lengths are
  equal, or one of them is 1 and is repeated; any other pair of lengths raises ValueError.
\<close>

definition bcast_ok :: "nat \<Rightarrow> nat \<Rightarrow> bool" where
  "bcast_ok m n = (m = n \<or> m = 1 \<or> n = 1)"

definition bcast_dim :: "nat \<Rightarrow> nat \<Rightarrow> nat" where
  "bcast_dim m n = (if m = 1 then n else m)"

definition bcast_list :: "('a \<Rightarrow> 'b \<Rightarrow> 'c) \<Rightarrow> 'a list \<Rightarrow> 'b list \<Rightarrow> 'c list" where
  "bcast_list f xs ys =
     (if length xs = length ys then map2 f xs ys
      else if length xs = 1 then map (f (hd xs)) ys
      else map (\<lambda>x. f x (hd ys)) xs)"

definition nd_binop :: "(fval \<Rightarrow> fval \<Rightarrow> fval) \<Rightarrow> ndarray \<Rightarrow> ndarray \<Rightarrow> pyerror + ndarray" where
  "nd_binop f A B =
     (if bcast_ok (shape0 A) (shape0 B) \<and> bcast_ok (shape1 A) (shape1 B)
      then Inr \<lparr>shape1 = bcast_dim (shape1 A) (shape1 B),
                rowlist = bcast_list (bcast_list f) (rowlist A) (rowlist B)\<rparr>
      else Inl ValueError)"

definition nd_map :: "(fval \<Rightarrow> fval) \<Rightarrow> ndarray \<Rightarrow> ndarray" where
  "nd_map f A = \<lparr>shape1 = shape1 A, rowlist = map (map f) (rowlist A)\<rparr>"

text \<open>\<^verbatim>\<open>np.sum(A, axis=1)\<close>: the sum of each row.\<close>

definition sum_axis1 :: "ndarray \<Rightarrow> fval list" where
  "sum_axis1 A = map sum_list (rowlist A)"

subsection \<open>Sparse matrices\<close>

text \<open>
  A scipy sparse matrix: its shape and its stored entries, one per stored position. A stored
  entry may hold the value zero; \<^verbatim>\<open>nnz\<close> counts stored entries. The entries are kept
  here in the order in which their positions first appear, where scipy keeps them by column;
  the operations below are sums, which do not depend on that order.
\<close>

record spmatrix =
  sp_shape :: "nat \<times> nat"
  entries :: "((nat \<times> nat) \<times> fval) list"

definition nnz :: "spmatrix \<Rightarrow> nat" where
  "nnz S = length (entries S)"

definition sp_lookup :: "spmatrix \<Rightarrow> nat \<times> nat \<Rightarrow> fval" where
  "sp_lookup S p = (case map_of (entries S) p of None \<Rightarrow> 0 | Some v \<Rightarrow> v)"

text \<open>
  Building a compressed matrix from coordinate triples adds up the values of the triples
  that share a position (scipy's \<^verbatim>\<open>sum_duplicates\<close>).
\<close>

fun add_entry :: "nat \<times> nat \<Rightarrow> fval \<Rightarrow> ((nat \<times> nat) \<times> fval) list \<Rightarrow> ((nat \<times> nat) \<times> fval) list" where
  "add_entry p v [] = [(p, v)]"
| "add_entry p v ((q, w) # es) =
     (if p = q then (q, w + v) # es else (q, w) # add_entry p v es)"

definition sum_duplicates :: "((nat \<times> nat) \<times> fval) list \<Rightarrow> ((nat \<times> nat) \<times> fval) list" where
  "sum_duplicates triples = fold (\<lambda>(p, v) es. add_entry p v es) triples []"

text \<open>
  \<^verbatim>\<open>A - B\<close> on sparse matrices: shapes must agree (ValueError otherwise); the result
  stores the difference at every position stored in either operand, except where the
  difference is zero.
\<close>

definition sp_sub :: "spmatrix \<Rightarrow> spmatrix \<Rightarrow> pyerror + spmatrix" where
  "sp_sub A B =
     (if sp_shape A \<noteq> sp_shape B then Inl ValueError
      else Inr \<lparr>sp_shape = sp_shape A,
                entries = filter (\<lambda>(p, v). v \<noteq> 0)
                  (map (\<lambda>(p, a). (p, fsub a (sp_lookup B p))) (entries A) @
                   map (\<lambda>(p, b). (p, fsub 0 b))
                     (filter (\<lambda>(p, b). map_of (entries A) p = None) (entries B)))\<rparr>)"

definition sp_scale :: "fval \<Rightarrow> spmatrix \<Rightarrow> spmatrix" where
  "sp_scale c S = \<lparr>sp_shape = sp_shape S, entries = map (\<lambda>(p, v). (p, fmul c v)) (entries S)\<rparr>"

definition sp_power2 :: "spmatrix \<Rightarrow> spmatrix" where
  "sp_power2 S = \<lparr>sp_shape = sp_shape S, entries = map (\<lambda>(p, v). (p, fmul v v)) (entries S)\<rparr>"

definition sp_sum :: "spmatrix \<Rightarrow> fval" where
  "sp_sum S = sum_list (map snd (entries S))"

definition sp_transpose :: "spmatrix \<Rightarrow> spmatrix" where
  "sp_transpose S =
     \<lparr>sp_shape = (snd (sp_shape S), fst (sp_shape S)),
      entries = map (\<lambda>((i, j), v). ((j, i), v)) (entries S)\<rparr>"

text \<open>
  Sparse times dense: ValueError unless the inner dimensions agree; entry \<open>(i, k)\<close> of
  the dense result adds \<open>v * A[j][k]\<close> over the stored entries \<open>((i, j), v)\<close> of row
  \<open>i\<close>.
\<close>

definition sp_matmul :: "spmatrix \<Rightarrow> ndarray \<Rightarrow> pyerror + ndarray" where
  "sp_matmul S A =
     (if snd (sp_shape S) \<noteq> shape0 A then Inl ValueError
      else Inr \<lparr>shape1 = shape1 A,
                rowlist = map (\<lambda>i. map (\<lambda>k.
                    sum_list (map (\<lambda>((i', j), v). fmul v (rowlist A ! j ! k))
                                (filter (\<lambda>((i', j), v). i' = i) (entries S))))
                    [0..<shape1 A]) [0..<fst (sp_shape S)]\<rparr>)"

subsection \<open>Dataframes and the sparse builder \<^verbatim>\<open>df2matrix\<close>\<close>

text \<open>
  An encoded ratings table: the \<^verbatim>\<open>userId\<close> and \<^verbatim>\<open>movieId\<close> columns, row by
  row, and the float columns by name (\<^verbatim>\<open>rating\<close>, \<^verbatim>\<open>Prediction\<close>, any other).
\<close>

record dataframe =
  userId_movieId :: "(int \<times> int) list"
  float_cols :: "string \<rightharpoonup> fval list"

text \<open>
  \<^verbatim>\<open>df[column_name]\<close> raises KeyError for a missing column. The sparse constructor
  raises ValueError when the three arrays differ in length, and when an index is negative or
  not below its bound; otherwise it sums duplicates. \<open>nat_pair\<close> reads a checked index
  pair as a position of the matrix.
\<close>

definition nat_pair :: "int \<times> int \<Rightarrow> nat \<times> nat" where
  "nat_pair p = (nat (fst p), nat (snd p))"

definition df2matrix :: "dataframe \<Rightarrow> nat \<Rightarrow> nat \<Rightarrow> string \<Rightarrow> pyerror + spmatrix" where
  "df2matrix df nrows ncols column_name =
     (case float_cols df column_name of
        None \<Rightarrow> Inl KeyError
      | Some values \<Rightarrow>
          (let ind = userId_movieId df
           in if length values \<noteq> length ind then Inl ValueError
              else if list_ex (\<lambda>(u, m). int nrows \<le> u \<or> int ncols \<le> m \<or> u < 0 \<or> m < 0) ind
                   then Inl ValueError
              else Inr \<lparr>sp_shape = (nrows, ncols),
                        entries = sum_duplicates
                          (zip (map nat_pair ind) values)\<rparr>))"

subsection \<open>The masked predictor \<^verbatim>\<open>sparse_multiply\<close>\<close>

text \<open>
  The function assigns the column \<^verbatim>\<open>Prediction\<close> of the caller's dataframe, so the
  model returns the dataframe as it is left, also when an exception is raised.
\<close>

definition sparse_multiply ::
  "dataframe \<Rightarrow> ndarray \<Rightarrow> ndarray \<Rightarrow> (pyerror + spmatrix) \<times> dataframe" where
  "sparse_multiply df emb_user emb_movie =
     (case take_rows emb_user (map fst (userId_movieId df)) of
        Inl e \<Rightarrow> (Inl e, df)
      | Inr ru \<Rightarrow>
     (case take_rows emb_movie (map snd (userId_movieId df)) of
        Inl e \<Rightarrow> (Inl e, df)
      | Inr rm \<Rightarrow>
     (case nd_binop fmul ru rm of
        Inl e \<Rightarrow> (Inl e, df)
      | Inr products \<Rightarrow>
          (let df' = df\<lparr>float_cols := (float_cols df)(''Prediction'' \<mapsto> sum_axis1 products)\<rparr>
           in (df2matrix df' (shape0 emb_user) (shape0 emb_movie) ''Prediction'', df')))))"

subsection \<open>The cost evaluator \<^verbatim>\<open>cost\<close>\<close>

fun cost ::
  "dataframe option \<Rightarrow> ndarray \<Rightarrow> ndarray \<Rightarrow> (pyerror + fval option) \<times> dataframe option" where
  "cost None emb_user emb_movie = (Inr None, None)"
| "cost (Some df) emb_user emb_movie =
     (case df2matrix df (shape0 emb_user) (shape0 emb_movie) ''rating'' of
        Inl e \<Rightarrow> (Inl e, Some df)
      | Inr df_rating \<Rightarrow>
     (case sparse_multiply df emb_user emb_movie of
        (Inl e, df') \<Rightarrow> (Inl e, Some df')
      | (Inr df_pred, df') \<Rightarrow>
     (case sp_sub df_rating df_pred of
        Inl e \<Rightarrow> (Inl e, Some df')
      | Inr diff \<Rightarrow>
          (Inr (Some (fdiv_count (sp_sum (sp_power2 diff)) (nnz df_rating))), Some df'))))"

subsection \<open>The gradient computer \<^verbatim>\<open>gradient\<close>\<close>

text \<open>\<^verbatim>\<open>-2 * D * emb / N\<close> associates to the left: scale, multiply, divide.\<close>

definition scaled_product :: "spmatrix \<Rightarrow> ndarray \<Rightarrow> nat \<Rightarrow> pyerror + ndarray" where
  "scaled_product D emb N =
     (case sp_matmul (sp_scale (Fin (- 2)) D) emb of
        Inl e \<Rightarrow> Inl e
      | Inr M \<Rightarrow> Inr (nd_map (\<lambda>x. fdiv_count x N) M))"

definition gradient ::
  "dataframe \<Rightarrow> spmatrix \<Rightarrow> ndarray \<Rightarrow> ndarray \<Rightarrow> (pyerror + ndarray \<times> ndarray) \<times> dataframe" where
  "gradient df Y emb_user emb_movie =
     (let N = nnz Y
      in case sparse_multiply df emb_user emb_movie of
           (Inl e, df') \<Rightarrow> (Inl e, df')
         | (Inr pred, df') \<Rightarrow>
        (case sp_sub Y pred of
           Inl e \<Rightarrow> (Inl e, df')
         | Inr D \<Rightarrow>
        (case scaled_product D emb_movie N of
           Inl e \<Rightarrow> (Inl e, df')
         | Inr grad_user \<Rightarrow>
        (case scaled_product (sp_transpose D) emb_user N of
           Inl e \<Rightarrow> (Inl e, df')
         | Inr grad_movie \<Rightarrow> (Inr (grad_user, grad_movie), df')))))"

subsection \<open>The trainer \<^verbatim>\<open>gradient_descent\<close>\<close>

text \<open>
  A velocity is the Python number 0 before the first iteration and an array afterwards;
  arithmetic between a number and an array applies the number to every element.
\<close>

datatype pyval = PyNum fval | PyArr ndarray

fun py_scale :: "fval \<Rightarrow> pyval \<Rightarrow> pyval" where
  "py_scale c (PyNum x) = PyNum (fmul c x)"
| "py_scale c (PyArr A) = PyArr (nd_map (fmul c) A)"

fun py_add :: "pyval \<Rightarrow> pyval \<Rightarrow> pyerror + pyval" where
  "py_add (PyNum x) (PyNum y) = Inr (PyNum (x + y))"
| "py_add (PyNum x) (PyArr B) = Inr (PyArr (nd_map (\<lambda>b. x + b) B))"
| "py_add (PyArr A) (PyNum y) = Inr (PyArr (nd_map (\<lambda>a. a + y) A))"
| "py_add (PyArr A) (PyArr B) =
     (case nd_binop (+) A B of Inl e \<Rightarrow> Inl e | Inr C \<Rightarrow> Inr (PyArr C))"

fun nd_sub_py :: "ndarray \<Rightarrow> pyval \<Rightarrow> pyerror + ndarray" where
  "nd_sub_py A (PyNum y) = Inr (nd_map (\<lambda>a. fsub a y) A)"
| "nd_sub_py A (PyArr B) = nd_binop fsub A B"

text \<open>
  The state of the loop: both embeddings, both velocities, the two dataframes (each cost
  and gradient call rewrites their \<^verbatim>\<open>Prediction\<close> column) and the lines printed.
\<close>

type_synonym gd_state =
  "ndarray \<times> ndarray \<times> pyval \<times> pyval \<times> dataframe \<times> dataframe option \<times>
   (nat \<times> fval option \<times> fval option) list"

definition gd_iteration :: "spmatrix \<Rightarrow> fval \<Rightarrow> nat \<Rightarrow> gd_state \<Rightarrow> pyerror + gd_state" where
  "gd_iteration Y learning_rate i st =
     (case st of (emb_user, emb_movie, v_user, v_movie, df, df_val, printed) \<Rightarrow>
     (case gradient df Y emb_user emb_movie of
        (Inl e, df1) \<Rightarrow> Inl e
      | (Inr (grad_user, grad_movie), df1) \<Rightarrow>
     (case py_add (py_scale (Fin 0.9) v_user) (py_scale (Fin (1 - 0.9)) (PyArr grad_user)) of
        Inl e \<Rightarrow> Inl e
      | Inr v_user' \<Rightarrow>
     (case py_add (py_scale (Fin 0.9) v_movie) (py_scale (Fin (1 - 0.9)) (PyArr grad_movie)) of
        Inl e \<Rightarrow> Inl e
      | Inr v_movie' \<Rightarrow>
     (case nd_sub_py emb_user (py_scale learning_rate v_user') of
        Inl e \<Rightarrow> Inl e
      | Inr emb_user' \<Rightarrow>
     (case nd_sub_py emb_movie (py_scale learning_rate v_movie') of
        Inl e \<Rightarrow> Inl e
      | Inr emb_movie' \<Rightarrow>
          (if i mod 50 = 0 then
             (case cost (Some df1) emb_user' emb_movie' of
                (Inl e, d) \<Rightarrow> Inl e
              | (Inr c_train, d) \<Rightarrow>
             (case cost df_val emb_user' emb_movie' of
                (Inl e, dv) \<Rightarrow> Inl e
              | (Inr c_val, dv) \<Rightarrow>
                  Inr (emb_user', emb_movie', v_user', v_movie',
                       (case d of None \<Rightarrow> df1 | Some df2 \<Rightarrow> df2), dv,
                       printed @ [(i, c_train, c_val)])))
           else Inr (emb_user', emb_movie', v_user', v_movie', df1, df_val, printed))))))))"

fun gd_loop :: "spmatrix \<Rightarrow> fval \<Rightarrow> nat list \<Rightarrow> gd_state \<Rightarrow> pyerror + gd_state" where
  "gd_loop Y learning_rate [] st = Inr st"
| "gd_loop Y learning_rate (i # is) st =
     (case gd_iteration Y learning_rate i st of
        Inl e \<Rightarrow> Inl e
      | Inr st' \<Rightarrow> gd_loop Y learning_rate is st')"

text \<open>\<^verbatim>\<open>range(iterations)\<close> is empty for a negative count.\<close>

definition gradient_descent ::
  "dataframe \<Rightarrow> ndarray \<Rightarrow> ndarray \<Rightarrow> int \<Rightarrow> fval \<Rightarrow> dataframe option \<Rightarrow>
     pyerror + (ndarray \<times> ndarray) \<times> dataframe \<times> dataframe option \<times>
               (nat \<times> fval option \<times> fval option) list" where
  "gradient_descent df emb_user emb_movie iterations learning_rate df_val =
     (case df2matrix df (shape0 emb_user) (shape0 emb_movie) ''rating'' of
        Inl e \<Rightarrow> Inl e
      | Inr Y \<Rightarrow>
     (case gd_loop Y learning_rate [0..<nat iterations]
             (emb_user, emb_movie, PyNum 0, PyNum 0, df, df_val, []) of
        Inl e \<Rightarrow> Inl e
      | Inr (emb_user', emb_movie', v_user, v_movie, df', df_val', printed) \<Rightarrow>
          Inr ((emb_user', emb_movie'), df', df_val', printed)))"

subsection \<open>Notions used to state the properties\<close>

text \<open>
  The fold behind \<open>sum_duplicates\<close>, started from any list of entries, and the values
  that a list of triples holds at one position, in table order.
\<close>

definition dup_fold ::
  "((nat \<times> nat) \<times> fval) list \<Rightarrow> ((nat \<times> nat) \<times> fval) list \<Rightarrow> ((nat \<times> nat) \<times> fval) list" where
  "dup_fold ts acc = fold (\<lambda>(p, v) es. add_entry p v es) ts acc"

definition values_at :: "'p \<Rightarrow> ('p \<times> fval) list \<Rightarrow> fval list" where
  "values_at p ts = map snd (filter (\<lambda>t. fst t = p) ts)"

text \<open>Every index pair of the table is a position of an \<open>nrows \<times> ncols\<close> matrix.\<close>

definition in_range :: "dataframe \<Rightarrow> nat \<Rightarrow> nat \<Rightarrow> bool" where
  "in_range df nrows ncols =
     list_all (\<lambda>(u, m). 0 \<le> u \<and> u < int nrows \<and> 0 \<le> m \<and> m < int ncols) (userId_movieId df)"

text \<open>The dot product of two rows, and the column of dot products of a table.\<close>

definition dot :: "fval list \<Rightarrow> fval list \<Rightarrow> fval" where
  "dot a b = sum_list (map2 fmul a b)"

definition predictions :: "ndarray \<Rightarrow> ndarray \<Rightarrow> (int \<times> int) list \<Rightarrow> fval list" where
  "predictions U V ind = map (\<lambda>(u, m). dot (rowlist U ! nat u) (rowlist V ! nat m)) ind"

text \<open>The same column as the code computes it, with the broadcasting product of the rows.\<close>

definition bcast_predictions :: "ndarray \<Rightarrow> ndarray \<Rightarrow> (int \<times> int) list \<Rightarrow> fval list" where
  "bcast_predictions U V ind =
     map (\<lambda>(u, m). sum_list (bcast_list fmul (rowlist U ! nat u) (rowlist V ! nat m))) ind"

text \<open>
  The mean squared error in the spec's words: over the rows of the table, the square of
  rating minus dot product, summed and divided by the number of rows.
\<close>

definition squared_error :: "fval \<Rightarrow> fval \<Rightarrow> fval" where
  "squared_error r d = fmul (fsub r d) (fsub r d)"

definition mse_observed :: "(int \<times> int) list \<Rightarrow> fval list \<Rightarrow> ndarray \<Rightarrow> ndarray \<Rightarrow> fval" where
  "mse_observed ind ratings U V =
     fdiv_count
       (sum_list (map (\<lambda>((u, m), r). squared_error r (dot (rowlist U ! nat u) (rowlist V ! nat m)))
                      (zip ind ratings)))
       (length ind)"

text \<open>The dataframe after its \<^verbatim>\<open>Prediction\<close> column has been assigned.\<close>

definition with_prediction :: "dataframe \<Rightarrow> fval list \<Rightarrow> dataframe" where
  "with_prediction df col = df\<lparr>float_cols := (float_cols df)(''Prediction'' \<mapsto> col)\<rparr>"

text \<open>
  The gradient in the spec's words. The residual \<open>R = Y - P\<close> at a position (zero where
  nothing is stored); entry \<open>(i, k)\<close> of \<open>-2 (R V) / nnz(Y)\<close> and entry \<open>(j, k)\<close>
  of \<open>-2 (R\<^sup>T U) / nnz(Y)\<close>, the products being sums over all items and over all users.
\<close>

definition residual :: "spmatrix \<Rightarrow> spmatrix \<Rightarrow> nat \<times> nat \<Rightarrow> fval" where
  "residual Y P p = fsub (sp_lookup Y p) (sp_lookup P p)"





text \<open>An array filled with one value.\<close>

definition full :: "nat \<Rightarrow> nat \<Rightarrow> fval \<Rightarrow> ndarray" where
  "full n k x = \<lparr>shape1 = k, rowlist = replicate n (replicate k x)\<rparr>"

text \<open>
  The trainer in the spec's words. One transition computes the gradients against the
  fixed \<open>Y\<close>, then \<open>v \<leftarrow> 0.9 v + 0.1 grad\<close> for both velocities, then
  \<open>U \<leftarrow> U - \<eta> v\<^sub>U\<close> and \<open>V \<leftarrow> V - \<eta> v\<^sub>V\<close>, element by element on arrays of
  equal shape; the run makes a given number of transitions from zero velocities.
\<close>

definition nd_zip :: "(fval \<Rightarrow> fval \<Rightarrow> fval) \<Rightarrow> ndarray \<Rightarrow> ndarray \<Rightarrow> ndarray" where
  "nd_zip f A B = \<lparr>shape1 = shape1 A, rowlist = map2 (map2 f) (rowlist A) (rowlist B)\<rparr>"

definition velocity_update :: "ndarray \<Rightarrow> ndarray \<Rightarrow> ndarray" where
  "velocity_update v g = nd_zip (\<lambda>x y. fmul (Fin 0.9) x + fmul (Fin 0.1) y) v g"

definition descend :: "fval \<Rightarrow> ndarray \<Rightarrow> ndarray \<Rightarrow> ndarray" where
  "descend \<eta> U v = nd_zip (\<lambda>u x. fsub u (fmul \<eta> x)) U v"

type_synonym trainer_state = "ndarray \<times> ndarray \<times> ndarray \<times> ndarray"

definition transition :: "dataframe \<Rightarrow> spmatrix \<Rightarrow> fval \<Rightarrow> trainer_state \<Rightarrow> pyerror + trainer_state" where
  "transition df Y \<eta> st =
     (case st of (U, V, v_U, v_V) \<Rightarrow>
        (case fst (gradient df Y U V) of
           Inl e \<Rightarrow> Inl e
         | Inr (grad_U, grad_V) \<Rightarrow>
             (let v_U' = velocity_update v_U grad_U;
                  v_V' = velocity_update v_V grad_V
              in Inr (descend \<eta> U v_U', descend \<eta> V v_V', v_U', v_V'))))"

fun transitions :: "nat \<Rightarrow> ('s \<Rightarrow> pyerror + 's) \<Rightarrow> 's \<Rightarrow> pyerror + 's" where
  "transitions 0 f s = Inr s"
| "transitions (Suc n) f s =
     (case f s of Inl e \<Rightarrow> Inl e | Inr s' \<Rightarrow> transitions n f s')"

text \<open>
  Notions for the loop invariant: an array of a given shape; two dataframes with the same
  index columns and the same rating column; a table that the builder accepts; a velocity of
  the code against a velocity of the spec; a state of the code against a state of the spec.
\<close>

definition has_shape :: "ndarray \<Rightarrow> nat \<Rightarrow> nat \<Rightarrow> bool" where
  "has_shape A n k = (shape0 A = n \<and> shape1 A = k \<and> wf_ndarray A)"

definition same_table :: "dataframe \<Rightarrow> dataframe \<Rightarrow> bool" where
  "same_table d1 d2 =
     (userId_movieId d1 = userId_movieId d2 \<and> float_cols d1 ''rating'' = float_cols d2 ''rating'')"

definition trainable :: "dataframe \<Rightarrow> nat \<Rightarrow> nat \<Rightarrow> bool" where
  "trainable d n m =
     (case float_cols d ''rating'' of
        None \<Rightarrow> False
      | Some rs \<Rightarrow> length rs = length (userId_movieId d) \<and> in_range d n m)"

definition vel_rel :: "pyval \<Rightarrow> ndarray \<Rightarrow> nat \<Rightarrow> nat \<Rightarrow> bool" where
  "vel_rel pv v n k = ((pv = PyNum 0 \<and> v = full n k 0) \<or> (pv = PyArr v \<and> has_shape v n k))"

definition gd_rel ::
  "dataframe \<Rightarrow> dataframe option \<Rightarrow> nat \<Rightarrow> nat \<Rightarrow> nat \<Rightarrow> gd_state \<Rightarrow> trainer_state \<Rightarrow> bool" where
  "gd_rel df df_val n m k c s =
     (case c of (U, V, vu, vm, d, dv, printed) \<Rightarrow>
      case s of (U', V', sU, sV) \<Rightarrow>
        U = U' \<and> V = V' \<and> has_shape U n k \<and> has_shape V m k \<and>
        vel_rel vu sU n k \<and> vel_rel vm sV m k \<and> same_table d df \<and>
        (case df_val of
           None \<Rightarrow> dv = None
         | Some v0 \<Rightarrow> (case dv of None \<Rightarrow> False | Some v1 \<Rightarrow> same_table v1 v0)))"

text \<open>Tables used as concrete inputs.\<close>

definition dup_table :: dataframe where
  "dup_table = \<lparr>userId_movieId = [(0, 0), (0, 0)], float_cols = [''rating'' \<mapsto> [Fin 1, Fin 2]]\<rparr>"

definition bad_table :: dataframe where
  "bad_table = \<lparr>userId_movieId = [(0, 0), (2, 1)], float_cols = [''rating'' \<mapsto> [Fin 5, Fin 3]]\<rparr>"

definition example_table :: dataframe where
  "example_table = \<lparr>userId_movieId = [(0, 0), (1, 1)], float_cols = [''rating'' \<mapsto> [Fin 5, Fin 3]]\<rparr>"

definition eye2 :: ndarray where
  "eye2 = \<lparr>shape1 = 2, rowlist = [[Fin 1, Fin 0], [Fin 0, Fin 1]]\<rparr>"

definition empty_table :: dataframe where
  "empty_table = \<lparr>userId_movieId = [], float_cols = [''rating'' \<mapsto> []]\<rparr>"

definition twice_table :: dataframe where
  "twice_table = \<lparr>userId_movieId = [(0, 0), (0, 0)], float_cols = [''rating'' \<mapsto> [Fin 5, Fin 5]]\<rparr>"

definition one1 :: ndarray where
  "one1 = \<lparr>shape1 = 1, rowlist = [[Fin 1]]\<rparr>"

section \<open>Verification\<close>

subsection \<open>The ID encoder assigns indices in first-occurrence order\<close>

lemma set_unique_seen: "set (unique_seen seen xs) = set xs - set seen"
  by (induction xs arbitrary: seen) auto

lemma distinct_unique_seen: "distinct (unique_seen seen xs)"
  by (induction xs arbitrary: seen) (auto simp: set_unique_seen)

lemma unique_seen_position:
  "x \<in> set xs \<Longrightarrow> x \<notin> set seen \<Longrightarrow>
     card (set (takeWhile (\<lambda>y. y \<noteq> x) xs) - set seen) < length (unique_seen seen xs) \<and>
     unique_seen seen xs ! card (set (takeWhile (\<lambda>y. y \<noteq> x) xs) - set seen) = x"
proof (induction xs arbitrary: seen)
  case Nil
  then show ?case by simp
next
  case (Cons y xs)
  show ?case
  proof (cases "y \<in> set seen")
    case True
    with Cons.prems have yx: "y \<noteq> x" by auto
    have "insert y (set (takeWhile (\<lambda>y. y \<noteq> x) xs)) - set seen
            = set (takeWhile (\<lambda>y. y \<noteq> x) xs) - set seen"
      using True by auto
    with Cons True yx show ?thesis by auto
  next
    case False
    show ?thesis
    proof (cases "y = x")
      case True
      with False show ?thesis by simp
    next
      case ne: False
      let ?S = "set (takeWhile (\<lambda>y. y \<noteq> x) xs)"
      have x: "x \<in> set xs" "x \<notin> set (y # seen)" using Cons.prems ne by auto
      have eq: "insert y ?S - set seen = insert y (?S - set (y # seen))"
        using False by auto
      have "card (insert y ?S - set seen) = Suc (card (?S - set (y # seen)))"
        unfolding eq by (rule card_insert_disjoint) auto
      with Cons.IH[OF x] False ne show ?thesis by simp
    qed
  qed
qed

lemma fold_enumerate_notin:
  "k \<notin> set xs \<Longrightarrow> fold (\<lambda>(i, k) m. m(k \<mapsto> i)) (enumerate n xs) m0 k = m0 k"
  by (induction xs arbitrary: n m0) auto

lemma fold_enumerate_nth:
  "distinct xs \<Longrightarrow> i < length xs \<Longrightarrow>
     fold (\<lambda>(i, k) m. m(k \<mapsto> i)) (enumerate n xs) m0 (xs ! i) = Some (n + i)"
proof (induction xs arbitrary: n m0 i)
  case Nil
  then show ?case by simp
next
  case (Cons y ys)
  show ?case
  proof (cases i)
    case 0
    with Cons.prems fold_enumerate_notin[of y ys "Suc n" "m0(y \<mapsto> n)"]
    show ?thesis by (simp del: fun_upd_apply add: fun_upd_same)
  next
    case (Suc j)
    with Cons show ?thesis by simp
  qed
qed

lemma dict_of_enumerate_nth:
  "distinct xs \<Longrightarrow> i < length xs \<Longrightarrow> dict_of_enumerate xs (xs ! i) = Some i"
  unfolding dict_of_enumerate_def using fold_enumerate_nth[of xs i 0 Map.empty] by simp

lemma dict_of_enumerate_notin: "k \<notin> set xs \<Longrightarrow> dict_of_enumerate xs k = None"
  unfolding dict_of_enumerate_def by (simp add: fold_enumerate_notin)

lemma dom_dict_of_enumerate: "distinct xs \<Longrightarrow> dom (dict_of_enumerate xs) = set xs"
proof (intro set_eqI iffI)
  fix k assume "k \<in> dom (dict_of_enumerate xs)"
  then show "k \<in> set xs" using dict_of_enumerate_notin[of k xs] by (cases "k \<in> set xs") auto
next
  fix k assume "distinct xs" "k \<in> set xs"
  then show "k \<in> dom (dict_of_enumerate xs)"
    by (auto simp: in_set_conv_nth dict_of_enumerate_nth)
qed

lemma name2idx_first_occurrence:
  assumes "x \<in> set col"
  shows "dict_of_enumerate (unique col) x = Some (card (set (takeWhile (\<lambda>y. y \<noteq> x) col)))"
proof -
  let ?i = "card (set (takeWhile (\<lambda>y. y \<noteq> x) col))"
  have "?i < length (unique col)" "unique col ! ?i = x"
    using unique_seen_position[OF assms, of "[]"] by (simp_all add: unique_def)
  moreover have "distinct (unique col)" by (simp add: unique_def distinct_unique_seen)
  ultimately show ?thesis using dict_of_enumerate_nth[of "unique col" ?i] by simp
qed

lemma name2idx_dom: "dom (dict_of_enumerate (unique col)) = set col"
  by (simp add: dom_dict_of_enumerate unique_def distinct_unique_seen set_unique_seen)

lemma lookup_all_total:
  "set xs \<subseteq> dom m \<Longrightarrow> lookup_all m xs = Inr (map (\<lambda>x. the (m x)) xs)"
  by (induction xs) auto

lemma length_unique: "length (unique col) = card (set col)"
  using distinct_card[OF distinct_unique_seen, of "[]" col]
  by (simp add: unique_def set_unique_seen)

lemma proc_col_eq:
  "proc_col col = Inr (dict_of_enumerate (unique col),
                       map (\<lambda>x. the (dict_of_enumerate (unique col) x)) col,
                       card (set col))"
  by (simp add: proc_col_def Let_def lookup_all_total name2idx_dom length_unique)


lemma first_pos_less:
  "k \<in> set col \<Longrightarrow> length (takeWhile (\<lambda>z. z \<noteq> k) col) < length col"
  by (induction col) auto

lemma first_pos_nth:
  "k \<in> set col \<Longrightarrow> col ! length (takeWhile (\<lambda>z. z \<noteq> k) col) = k"
  by (induction col) auto

lemma first_occurrence_order:
  assumes x: "x \<in> set col" and y: "y \<in> set col"
  shows "card (set (takeWhile (\<lambda>z. z \<noteq> x) col)) < card (set (takeWhile (\<lambda>z. z \<noteq> y) col))
         \<longleftrightarrow> length (takeWhile (\<lambda>z. z \<noteq> x) col) < length (takeWhile (\<lambda>z. z \<noteq> y) col)"
proof -
  define p where "p = (\<lambda>k. length (takeWhile (\<lambda>z. z \<noteq> k) col))"
  have tw: "takeWhile (\<lambda>z. z \<noteq> k) col = take (p k) col" for k
    unfolding p_def by (rule takeWhile_eq_take)
  have at: "p k < length col \<and> col ! p k = k" if "k \<in> set col" for k
    using that unfolding p_def by (simp add: first_pos_less first_pos_nth)
  have notin: "k \<notin> set (take (p k) col)" for k
    using set_takeWhileD[of k "\<lambda>z. z \<noteq> k" col] tw[of k] by auto
  have less: "card (set (take (p a) col)) < card (set (take (p b) col))"
    if "p a < p b" "a \<in> set col" for a b
  proof (rule psubset_card_mono)
    have "a \<in> set (take (p b) col)"
      using that at[of a] by (auto simp: in_set_conv_nth intro!: exI[of _ "p a"])
    moreover have "set (take (p a) col) \<subseteq> set (take (p b) col)"
      using that(1) by (intro set_take_subset_set_take) simp
    ultimately show "set (take (p a) col) \<subset> set (take (p b) col)"
      using notin[of a] by blast
  qed simp
  have c: "card (set (takeWhile (\<lambda>z. z \<noteq> k) col)) = card (set (take (p k) col))" for k
    using tw[of k] by simp
  have l: "length (takeWhile (\<lambda>z. z \<noteq> k) col) = p k" for k
    by (simp add: p_def)
  have "card (set (take (p x) col)) < card (set (take (p y) col)) \<longleftrightarrow> p x < p y"
  proof (cases "p x < p y")
    case True
    with less[OF True x] show ?thesis by simp
  next
    case False
    have "\<not> card (set (take (p x) col)) < card (set (take (p y) col))"
    proof (cases "p y < p x")
      case True
      from less[OF True y] show ?thesis by simp
    next
      case eq: False
      with False have "p x = p y" by simp
      then show ?thesis by simp
    qed
    with False show ?thesis by simp
  qed
  then show ?thesis unfolding c l .
qed

lemma name2idx_image:
  "(\<lambda>x. the (dict_of_enumerate (unique col) x)) ` set col = {0..<card (set col)}"
proof -
  let ?u = "unique col"
  have d: "distinct ?u" and s: "set ?u = set col"
    by (simp_all add: unique_def distinct_unique_seen set_unique_seen)
  have "(\<lambda>x. the (dict_of_enumerate ?u x)) ` set ?u = {0..<length ?u}"
  proof (intro set_eqI iffI)
    fix i assume "i \<in> (\<lambda>x. the (dict_of_enumerate ?u x)) ` set ?u"
    then obtain j where "j < length ?u" "i = the (dict_of_enumerate ?u (?u ! j))"
      by (auto simp: in_set_conv_nth)
    then show "i \<in> {0..<length ?u}" by (simp add: dict_of_enumerate_nth[OF d])
  next
    fix i assume "i \<in> {0..<length ?u}"
    then have "i < length ?u" by simp
    then have "?u ! i \<in> set ?u" "the (dict_of_enumerate ?u (?u ! i)) = i"
      by (simp_all add: dict_of_enumerate_nth[OF d])
    then show "i \<in> (\<lambda>x. the (dict_of_enumerate ?u x)) ` set ?u" by force
  qed
  then show ?thesis by (simp add: s length_unique)
qed

text \<open>
  Claim C7. For every column, \<^verbatim>\<open>proc_col\<close> returns normally (the KeyError of
  the index lookup cannot happen) with: a dictionary whose keys are exactly the column's
  values; the index of a key is the number of distinct keys met before its first occurrence,
  so indices follow first-occurrence order, start at 0, are pairwise different and fill
  \<open>{0..<n}\<close>; the column translated through the dictionary; and the number \<open>n\<close> of
  distinct keys. The encoder is a function of the column alone, so two calls on the same
  column give the same assignment.
\<close>

theorem proc_col_first_occurrence:
  "\<exists>name2idx idx.
     proc_col col = Inr (name2idx, idx, card (set col)) \<and>
     dom name2idx = set col \<and>
     (\<forall>x\<in>set col. name2idx x = Some (card (set (takeWhile (\<lambda>y. y \<noteq> x) col)))) \<and>
     (\<forall>x\<in>set col. \<forall>y\<in>set col.
        the (name2idx x) < the (name2idx y) \<longleftrightarrow>
        length (takeWhile (\<lambda>z. z \<noteq> x) col) < length (takeWhile (\<lambda>z. z \<noteq> y) col)) \<and>
     inj_on name2idx (set col) \<and>
     (\<lambda>x. the (name2idx x)) ` set col = {0..<card (set col)} \<and>
     idx = map (\<lambda>x. the (name2idx x)) col"
proof -
  let ?m = "dict_of_enumerate (unique col)"
  have inj: "inj_on ?m (set col)"
  proof (rule inj_onI)
    fix x y assume a: "x \<in> set col" "y \<in> set col" "?m x = ?m y"
    then have "card (set (takeWhile (\<lambda>z. z \<noteq> x) col)) = card (set (takeWhile (\<lambda>z. z \<noteq> y) col))"
      by (simp add: name2idx_first_occurrence)
    with first_occurrence_order[OF a(1,2)] first_occurrence_order[OF a(2,1)]
    have eq: "length (takeWhile (\<lambda>z. z \<noteq> x) col) = length (takeWhile (\<lambda>z. z \<noteq> y) col)"
      by simp
    have "x = col ! length (takeWhile (\<lambda>z. z \<noteq> x) col)"
      using first_pos_nth[OF a(1)] by (rule sym)
    also have "\<dots> = col ! length (takeWhile (\<lambda>z. z \<noteq> y) col)"
      by (rule arg_cong[OF eq])
    also have "\<dots> = y" by (rule first_pos_nth[OF a(2)])
    finally show "x = y" .
  qed
  have ord: "\<forall>x\<in>set col. \<forall>y\<in>set col.
        the (?m x) < the (?m y) \<longleftrightarrow>
        length (takeWhile (\<lambda>z. z \<noteq> x) col) < length (takeWhile (\<lambda>z. z \<noteq> y) col)"
    by (simp add: name2idx_first_occurrence first_occurrence_order)
  have fo: "\<forall>x\<in>set col. ?m x = Some (card (set (takeWhile (\<lambda>y. y \<noteq> x) col)))"
    by (simp add: name2idx_first_occurrence)
  show ?thesis
    apply (rule exI[of _ ?m], rule exI[of _ "map (\<lambda>x. the (?m x)) col"])
    apply (intro conjI)
          apply (rule proc_col_eq)
         apply (rule name2idx_dom)
        apply (rule fo)
       apply (rule ord)
      apply (rule inj)
     apply (rule name2idx_image)
    apply (rule refl)
    done
qed

theorem proc_col_first_occurrence_witness:
  "\<exists>name2idx. proc_col [7, 3, 7, 5 :: nat] = Inr (name2idx, [0, 1, 0, 2], 3) \<and>
     name2idx 7 = Some 0 \<and> name2idx 3 = Some 1 \<and> name2idx 5 = Some 2"
proof -
  let ?col = "[7, 3, 7, 5 :: nat]"
  obtain m idx where p: "proc_col ?col = Inr (m, idx, card (set ?col))"
    and f: "\<forall>x\<in>set ?col. m x = Some (card (set (takeWhile (\<lambda>y. y \<noteq> x) ?col)))"
    and i: "idx = map (\<lambda>x. the (m x)) ?col"
    using proc_col_first_occurrence [of ?col] by (elim exE conjE) (rule that)
  have k: "card (set (takeWhile (\<lambda>y. y \<noteq> 7) ?col)) = 0"
    "card (set (takeWhile (\<lambda>y. y \<noteq> 3) ?col)) = 1"
    "card (set (takeWhile (\<lambda>y. y \<noteq> 5) ?col)) = 2"
    by code_simp+
  have "7 \<in> set ?col" "3 \<in> set ?col" "5 \<in> set ?col" by simp_all
  then have m: "m 7 = Some 0" "m 3 = Some 1" "m 5 = Some 2"
    using f k by metis+
  have c: "card (set ?col) = 3" by code_simp
  show ?thesis using p m unfolding i c by (intro exI[of _ m]) simp
qed

lemma replace_cell_seen: "k \<in> dom d \<Longrightarrow> replace_cell d k = Idx (the (d k))"
  by (auto simp: replace_cell_def)

lemma name2idx_bound:
  assumes "k \<in> set ks"
  shows "the (dict_of_enumerate (unique ks) k) < card (set ks)"
proof -
  have "the (dict_of_enumerate (unique ks) k) \<in> (\<lambda>x. the (dict_of_enumerate (unique ks) x)) ` set ks"
    using assms by (rule imageI)
  then have "the (dict_of_enumerate (unique ks) k) \<in> {0..<card (set ks)}"
    unfolding name2idx_image .
  then show ?thesis by simp
qed

lemma encode_new_data_eq:
  fixes df_train :: "('u \<times> 'm \<times> 'r) list"
  defines "U \<equiv> dict_of_enumerate (unique (map fst df_train))"
    and "M \<equiv> dict_of_enumerate (unique (map (fst \<circ> snd) df_train))"
  shows "encode_new_data copy_on_write df_val df_train =
     Inr (map (\<lambda>(u, m, r). (if copy_on_write then Raw u else Idx (the (U u)),
                              if copy_on_write then Raw m else Idx (the (M m)), r))
            (filter (\<lambda>(u, m, r). u \<in> fst ` set df_train \<and> m \<in> (fst \<circ> snd) ` set df_train)
               df_val),
          zip (map (\<lambda>x. the (U x)) (map fst df_train))
            (zip (map (\<lambda>x. the (M x)) (map (fst \<circ> snd) df_train))
               (map (snd \<circ> snd) df_train)))"
proof -
  let ?keep = "\<lambda>(u, m, r). u \<in> fst ` set df_train \<and> m \<in> (fst \<circ> snd) ` set df_train"
  have domU: "dom U = fst ` set df_train" and domM: "dom M = (fst \<circ> snd) ` set df_train"
    by (simp_all add: U_def M_def name2idx_dom)
  have flt: "filter (\<lambda>(u, m, r). u \<in> dom U \<and> m \<in> dom M) df_val = filter ?keep df_val"
    unfolding domU domM ..
  have tr: "map (\<lambda>(u, m, r). (replace_inplace_on_column copy_on_write U u,
                               replace_inplace_on_column copy_on_write M m, r))
              (filter ?keep df_val)
          = map (\<lambda>(u, m, r). (if copy_on_write then Raw u else Idx (the (U u)),
                               if copy_on_write then Raw m else Idx (the (M m)), r))
              (filter ?keep df_val)"
  proof (rule map_cong[OF refl])
    fix row assume "row \<in> set (filter ?keep df_val)"
    then have k: "?keep row" by simp
    obtain u m r where row: "row = (u, m, r)" by (cases row)
    with k have "u \<in> dom U" "m \<in> dom M" unfolding domU domM by simp_all
    with row show "(case row of (u, m, r) \<Rightarrow>
                      (replace_inplace_on_column copy_on_write U u,
                       replace_inplace_on_column copy_on_write M m, r)) =
               (case row of (u, m, r) \<Rightarrow>
                      (if copy_on_write then Raw u else Idx (the (U u)),
                       if copy_on_write then Raw m else Idx (the (M m)), r))"
      by (simp add: replace_inplace_on_column_def replace_cell_seen)
  qed
  show ?thesis
    unfolding encode_new_data_def proc_col_eq U_def[symmetric] M_def[symmetric]
    by (simp only: sum.case prod.case Let_def flt tr)
qed

text \<open>
  In either mode \<^verbatim>\<open>encode_new_data\<close> returns normally and keeps exactly the
  validation rows whose user key and item key both occur in the training table, in their
  order, so a row with an unseen key is not in the result. Without copy-on-write each kept
  key is replaced by the index that the training dictionaries give it, an index below the
  training count; with copy-on-write the kept rows carry their raw keys.
\<close>

theorem encode_new_data_inner_join:
  "\<exists>user2idx users num_users mov2idx movies num_movies df_val' df_train'.
     proc_col (map fst df_train) = Inr (user2idx, users, num_users) \<and>
     proc_col (map (fst \<circ> snd) df_train) = Inr (mov2idx, movies, num_movies) \<and>
     encode_new_data copy_on_write df_val df_train = Inr (df_val', df_train') \<and>
     map (snd \<circ> snd) df_val' =
       map (snd \<circ> snd)
         (filter (\<lambda>(u, m, r). u \<in> fst ` set df_train \<and> m \<in> (fst \<circ> snd) ` set df_train) df_val) \<and>
     (copy_on_write \<longrightarrow>
        df_val' = map (\<lambda>(u, m, r). (Raw u, Raw m, r))
                 (filter (\<lambda>(u, m, r). u \<in> fst ` set df_train \<and> m \<in> (fst \<circ> snd) ` set df_train)
                    df_val)) \<and>
     (\<not> copy_on_write \<longrightarrow>
        df_val' = map (\<lambda>(u, m, r). (Idx (the (user2idx u)), Idx (the (mov2idx m)), r))
                 (filter (\<lambda>(u, m, r). u \<in> fst ` set df_train \<and> m \<in> (fst \<circ> snd) ` set df_train)
                    df_val) \<and>
        (\<forall>(cu, cm, r) \<in> set df_val'.
           \<exists>u m. (u, m, r) \<in> set df_val \<and> u \<in> fst ` set df_train \<and>
              m \<in> (fst \<circ> snd) ` set df_train \<and>
              cu = Idx (the (user2idx u)) \<and> the (user2idx u) < num_users \<and>
              cm = Idx (the (mov2idx m)) \<and> the (mov2idx m) < num_movies))"
proof -
  let ?us = "map fst df_train" and ?ms = "map (fst \<circ> snd) df_train"
  let ?U = "dict_of_enumerate (unique ?us)" and ?M = "dict_of_enumerate (unique ?ms)"
  let ?keep = "\<lambda>(u, m, r). u \<in> fst ` set df_train \<and> m \<in> (fst \<circ> snd) ` set df_train"
  let ?val = "map (\<lambda>(u, m, r). (Idx (the (?U u)), Idx (the (?M m)), r)) (filter ?keep df_val)"
  let ?raw = "map (\<lambda>(u, m, r). (Raw u, Raw m, r)) (filter ?keep df_val)"
  let ?res = "map (\<lambda>(u, m, r). (if copy_on_write then Raw u else Idx (the (?U u)),
                                  if copy_on_write then Raw m else Idx (the (?M m)), r))
                (filter ?keep df_val)"
  let ?train = "zip (map (\<lambda>x. the (?U x)) ?us) (zip (map (\<lambda>x. the (?M x)) ?ms) (map (snd \<circ> snd) df_train))"
  have enc: "encode_new_data copy_on_write df_val df_train = Inr (?res, ?train)"
    by (rule encode_new_data_eq)
  have rest: "map (snd \<circ> snd) ?res = map (snd \<circ> snd) (filter ?keep df_val)"
    by (simp add: comp_def case_prod_unfold)
  have cow: "copy_on_write \<longrightarrow> ?res = ?raw" by simp
  have leg: "\<not> copy_on_write \<longrightarrow> ?res = ?val" by simp
  have rows: "\<forall>(cu, cm, r) \<in> set ?val.
        \<exists>u m. (u, m, r) \<in> set df_val \<and> u \<in> fst ` set df_train \<and>
              m \<in> (fst \<circ> snd) ` set df_train \<and>
              cu = Idx (the (?U u)) \<and> the (?U u) < card (set ?us) \<and>
              cm = Idx (the (?M m)) \<and> the (?M m) < card (set ?ms)"
  proof (intro ballI)
    fix row assume "row \<in> set ?val"
    then obtain u m r where in_val: "(u, m, r) \<in> set df_val"
      and k: "u \<in> fst ` set df_train" "m \<in> (fst \<circ> snd) ` set df_train"
      and row: "row = (Idx (the (?U u)), Idx (the (?M m)), r)"
      by auto
    from k have "u \<in> set ?us" "m \<in> set ?ms" by simp_all
    then have "the (?U u) < card (set ?us)" "the (?M m) < card (set ?ms)"
      by (simp_all only: name2idx_bound)
    with in_val k show "case row of (cu, cm, r) \<Rightarrow>
        \<exists>u m. (u, m, r) \<in> set df_val \<and> u \<in> fst ` set df_train \<and>
              m \<in> (fst \<circ> snd) ` set df_train \<and>
              cu = Idx (the (?U u)) \<and> the (?U u) < card (set ?us) \<and>
              cm = Idx (the (?M m)) \<and> the (?M m) < card (set ?ms)"
      unfolding row prod.case by blast
  qed
  have leg': "\<not> copy_on_write \<longrightarrow> ?res = ?val \<and>
        (\<forall>(cu, cm, r) \<in> set ?res.
           \<exists>u m. (u, m, r) \<in> set df_val \<and> u \<in> fst ` set df_train \<and>
              m \<in> (fst \<circ> snd) ` set df_train \<and>
              cu = Idx (the (?U u)) \<and> the (?U u) < card (set ?us) \<and>
              cm = Idx (the (?M m)) \<and> the (?M m) < card (set ?ms))"
  proof
    assume n: "\<not> copy_on_write"
    from n have e: "?res = ?val" by simp
    show "?res = ?val \<and>
        (\<forall>(cu, cm, r) \<in> set ?res.
           \<exists>u m. (u, m, r) \<in> set df_val \<and> u \<in> fst ` set df_train \<and>
              m \<in> (fst \<circ> snd) ` set df_train \<and>
              cu = Idx (the (?U u)) \<and> the (?U u) < card (set ?us) \<and>
              cm = Idx (the (?M m)) \<and> the (?M m) < card (set ?ms))"
      unfolding e using rows by (intro conjI refl)
  qed
  show ?thesis
    apply (rule exI[of _ ?U], rule exI[of _ "map (\<lambda>x. the (?U x)) ?us"], rule exI[of _ "card (set ?us)"])
    apply (rule exI[of _ ?M], rule exI[of _ "map (\<lambda>x. the (?M x)) ?ms"], rule exI[of _ "card (set ?ms)"])
    apply (rule exI[of _ ?res])
    apply (rule exI[of _ ?train])
    apply (intro conjI)
         apply (rule proc_col_eq)
        apply (rule proc_col_eq)
       apply (rule enc)
      apply (rule rest)
     apply (rule cow)
    apply (rule leg')
    done
qed

theorem encode_new_data_inner_join_witness:
  "\<exists>t. encode_new_data False ([(3, 10, 4), (2, 10, 5)] :: (nat \<times> nat \<times> nat) list)
            ([(1, 10, 5), (2, 20, 3)] :: (nat \<times> nat \<times> nat) list)
         = Inr ([(Idx 1, Idx 0, 5)], t)
       \<and> (\<forall>(cu, cm, r) \<in> set [(Idx 1, Idx 0, 5 :: nat)]. cu \<noteq> Raw (3 :: nat) \<and> cm \<noteq> Raw (10 :: nat))"
proof -
  let ?train = "[(1, 10, 5), (2, 20, 3)] :: (nat \<times> nat \<times> nat) list"
  let ?val = "[(3, 10, 4), (2, 10, 5)] :: (nat \<times> nat \<times> nat) list"
  obtain U us nu M ms nm v t where pu: "proc_col (map fst ?train) = Inr (U, us, nu)"
    and pm: "proc_col (map (fst \<circ> snd) ?train) = Inr (M, ms, nm)"
    and e: "encode_new_data False ?val ?train = Inr (v, t)"
    and v: "\<not> False \<longrightarrow>
            v = map (\<lambda>(u, m, r). (Idx (the (U u)), Idx (the (M m)), r))
                 (filter (\<lambda>(u, m, r). u \<in> fst ` set ?train \<and> m \<in> (fst \<circ> snd) ` set ?train) ?val) \<and>
            (\<forall>(cu, cm, r) \<in> set v.
               \<exists>u m. (u, m, r) \<in> set ?val \<and> u \<in> fst ` set ?train \<and>
                 m \<in> (fst \<circ> snd) ` set ?train \<and>
                 cu = Idx (the (U u)) \<and> the (U u) < nu \<and>
                 cm = Idx (the (M m)) \<and> the (M m) < nm)"
    using encode_new_data_inner_join [of ?train False ?val] by (elim exE conjE) (rule that)
  from v have v': "v = map (\<lambda>(u, m, r). (Idx (the (U u)), Idx (the (M m)), r))
                 (filter (\<lambda>(u, m, r). u \<in> fst ` set ?train \<and> m \<in> (fst \<circ> snd) ` set ?train) ?val)"
    by simp
  have U: "U = dict_of_enumerate (unique [1, 2])" and M: "M = dict_of_enumerate (unique [10, 20])"
    using pu pm unfolding proc_col_eq by simp_all
  have k: "card (set (takeWhile (\<lambda>y. y \<noteq> 2) [1, 2 :: nat])) = 1"
    "card (set (takeWhile (\<lambda>y. y \<noteq> 10) [10, 20 :: nat])) = 0"
    by code_simp+
  have "U 2 = Some 1" "M 10 = Some 0"
    unfolding U M using name2idx_first_occurrence[of 2 "[1, 2 :: nat]"]
      name2idx_first_occurrence[of 10 "[10, 20 :: nat]"] k by simp_all
  then have "v = [(Idx 1, Idx 0, 5)]" unfolding v' by simp
  with e show ?thesis by simp
qed

text \<open>
  Claim C8 says that every validation row that is kept has its keys translated to the
  training indices. With copy-on-write the code does not do so: for the training rows
  \<open>(1, 10, 5)\<close>, \<open>(2, 20, 3)\<close> and the validation rows \<open>(3, 10, 4)\<close>,
  \<open>(2, 10, 5)\<close> it drops the row of the unseen user 3 and returns the other row with
  its raw keys 2 and 10, where the claim, and the function's own docstring, give the
  training indices 1 and 0.
\<close>

theorem encode_new_data_copy_on_write_raw_keys:
  "encode_new_data True ([(3, 10, 4), (2, 10, 5)] :: (nat \<times> nat \<times> nat) list)
      ([(1, 10, 5), (2, 20, 3)] :: (nat \<times> nat \<times> nat) list)
     = Inr ([(Raw 2, Raw 10, 5)], [(0, 0, 5), (1, 1, 3)])"
proof -
  have k: "card (set (takeWhile (\<lambda>y. y \<noteq> 1) [1, 2 :: nat])) = 0"
    "card (set (takeWhile (\<lambda>y. y \<noteq> 2) [1, 2 :: nat])) = 1"
    "card (set (takeWhile (\<lambda>y. y \<noteq> 10) [10, 20 :: nat])) = 0"
    "card (set (takeWhile (\<lambda>y. y \<noteq> 20) [10, 20 :: nat])) = 1"
    by code_simp+
  have d: "dict_of_enumerate (unique [1, 2 :: nat]) 1 = Some 0"
    "dict_of_enumerate (unique [1, 2 :: nat]) 2 = Some 1"
    "dict_of_enumerate (unique [10, 20 :: nat]) 10 = Some 0"
    "dict_of_enumerate (unique [10, 20 :: nat]) 20 = Some 1"
    using name2idx_first_occurrence[of 1 "[1, 2 :: nat]"]
      name2idx_first_occurrence[of 2 "[1, 2 :: nat]"]
      name2idx_first_occurrence[of 10 "[10, 20 :: nat]"]
      name2idx_first_occurrence[of 20 "[10, 20 :: nat]"] k by simp_all
  show ?thesis
    unfolding encode_new_data_eq by (simp add: d d[unfolded One_nat_def])
qed

subsection \<open>The sparse builder\<close>

lemma keys_add_entry:
  "map fst (add_entry p v es) = (if p \<in> fst ` set es then map fst es else map fst es @ [p])"
  by (induction es) (auto split: if_splits)

lemma distinct_add_entry:
  "distinct (map fst es) \<Longrightarrow> distinct (map fst (add_entry p v es))"
  by (simp add: keys_add_entry)

lemma map_of_add_entry:
  "map_of (add_entry p v es) q =
     (if q = p then Some (case map_of es p of None \<Rightarrow> v | Some w \<Rightarrow> w + v) else map_of es q)"
  by (induction es) auto

lemma dup_fold_simps [simp]:
  "dup_fold [] acc = acc"
  "dup_fold ((p, v) # ts) acc = dup_fold ts (add_entry p v acc)"
  by (simp_all add: dup_fold_def)

lemma set_keys_dup_fold:
  "fst ` set (dup_fold ts acc) = fst ` set acc \<union> fst ` set ts"
proof (induction ts arbitrary: acc)
  case Nil
  then show ?case by simp
next
  case (Cons t ts)
  obtain p v where t: "t = (p, v)" by (cases t)
  have "fst ` set (add_entry p v acc) = insert p (fst ` set acc)"
    using keys_add_entry[of p v acc] by (metis (no_types, lifting) Un_insert_right append_Nil2 insert_absorb list.set(2) list.set_map set_append)
  with Cons.IH[of "add_entry p v acc"] show ?case by (auto simp: t)
qed

lemma distinct_dup_fold:
  "distinct (map fst acc) \<Longrightarrow> distinct (map fst (dup_fold ts acc))"
proof (induction ts arbitrary: acc)
  case Nil
  then show ?case by simp
next
  case (Cons t ts)
  obtain p v where t: "t = (p, v)" by (cases t)
  show ?case unfolding t dup_fold_simps
    by (rule Cons.IH) (rule distinct_add_entry[OF Cons.prems])
qed

lemma map_of_dup_fold:
  "map_of (dup_fold ts acc) p =
     (if p \<in> fst ` set acc \<union> fst ` set ts
      then Some ((case map_of acc p of None \<Rightarrow> 0 | Some w \<Rightarrow> w) + sum_list (values_at p ts))
      else None)"
proof (induction ts arbitrary: acc)
  case Nil
  then show ?case by (auto simp: values_at_def map_of_eq_None_iff[symmetric] split: option.splits)
next
  case (Cons t ts)
  obtain q v where t: "t = (q, v)" by (cases t)
  have keys: "fst ` set (add_entry q v acc) = insert q (fst ` set acc)"
    using set_keys_dup_fold[of "[(q, v)]" acc] by simp
  show ?case
    unfolding t dup_fold_simps Cons.IH keys
    by (auto simp: map_of_add_entry values_at_def add.assoc split: option.splits)
qed

lemma dup_fold_distinct_append:
  "distinct (map fst ts) \<Longrightarrow> fst ` set acc \<inter> fst ` set ts = {} \<Longrightarrow> dup_fold ts acc = acc @ ts"
proof (induction ts arbitrary: acc)
  case Nil
  then show ?case by simp
next
  case (Cons t ts)
  obtain q v where t: "t = (q, v)" by (cases t)
  have notin: "q \<notin> fst ` set acc" using Cons.prems(2) by (auto simp: t)
  have add: "add_entry q v acc = acc @ [(q, v)]" using notin
    by (induction acc) auto
  have "dup_fold ts (acc @ [(q, v)]) = (acc @ [(q, v)]) @ ts"
    using Cons.prems by (intro Cons.IH) (auto simp: t)
  then show ?case by (simp add: t add)
qed

lemma sum_duplicates_distinct:
  "distinct (map fst ts) \<Longrightarrow> sum_duplicates ts = ts"
  using dup_fold_distinct_append[of ts "[]"] by (simp add: sum_duplicates_def dup_fold_def)

lemma keys_sum_duplicates: "fst ` set (sum_duplicates ts) = fst ` set ts"
  using set_keys_dup_fold[of ts "[]"] by (simp add: sum_duplicates_def dup_fold_def)

lemma distinct_sum_duplicates: "distinct (map fst (sum_duplicates ts))"
  using distinct_dup_fold[of "[]" ts] by (simp add: sum_duplicates_def dup_fold_def)

lemma length_sum_duplicates: "length (sum_duplicates ts) = card (fst ` set ts)"
proof -
  have "length (sum_duplicates ts) = length (map fst (sum_duplicates ts))" by simp
  also have "\<dots> = card (set (map fst (sum_duplicates ts)))"
    by (rule distinct_card[OF distinct_sum_duplicates, symmetric])
  also have "\<dots> = card (fst ` set ts)" by (simp add: keys_sum_duplicates)
  finally show ?thesis .
qed

lemma map_of_sum_duplicates:
  "map_of (sum_duplicates ts) p =
     (if p \<in> fst ` set ts then Some (sum_list (values_at p ts)) else None)"
  using map_of_dup_fold[of ts "[]" p] by (simp add: sum_duplicates_def dup_fold_def)

lemma nat_pair_inj: "inj_on nat_pair {p. 0 \<le> fst p \<and> 0 \<le> snd p}"
  by (auto simp: inj_on_def nat_pair_def)

lemma in_range_nonneg:
  "in_range df nrows ncols \<Longrightarrow> set (userId_movieId df) \<subseteq> {p. 0 \<le> fst p \<and> 0 \<le> snd p}"
  by (auto simp: in_range_def list_all_iff)

lemma in_range_inj: "in_range df nrows ncols \<Longrightarrow> inj_on nat_pair (set (userId_movieId df))"
  by (rule inj_on_subset[OF nat_pair_inj in_range_nonneg])

lemma values_at_map_inj:
  "inj_on f (set ks) \<Longrightarrow> p \<in> set ks \<Longrightarrow>
     values_at (f p) (zip (map f ks) vs) = values_at p (zip ks vs)"
proof -
  assume inj: "inj_on f (set ks)" and p: "p \<in> set ks"
  have "filter (\<lambda>t. fst t = f p) (zip (map f ks) vs) = map (\<lambda>(k, v). (f k, v)) (filter (\<lambda>t. fst t = p) (zip ks vs))"
  proof -
    have z: "zip (map f ks) vs = map (\<lambda>(k, v). (f k, v)) (zip ks vs)"
      by (simp add: zip_map1)
    have "filter (\<lambda>t. fst t = f p) (map (\<lambda>(k, v). (f k, v)) (zip ks vs))
           = map (\<lambda>(k, v). (f k, v)) (filter (\<lambda>t. f (fst t) = f p) (zip ks vs))"
      by (simp add: filter_map comp_def case_prod_unfold)
    also have "filter (\<lambda>t. f (fst t) = f p) (zip ks vs) = filter (\<lambda>t. fst t = p) (zip ks vs)"
    proof (rule filter_cong[OF refl])
      fix t assume "t \<in> set (zip ks vs)"
      then have "fst t \<in> set ks" by (metis prod.collapse set_zip_leftD)
      with inj p show "(f (fst t) = f p) = (fst t = p)" by (auto dest: inj_onD)
    qed
    finally show ?thesis unfolding z .
  qed
  then show ?thesis by (simp add: values_at_def comp_def case_prod_unfold)
qed

lemma df2matrix_ok:
  assumes "float_cols df column_name = Some vals"
    and "length vals = length (userId_movieId df)"
    and "in_range df nrows ncols"
  shows "df2matrix df nrows ncols column_name =
           Inr \<lparr>sp_shape = (nrows, ncols),
                entries = sum_duplicates (zip (map nat_pair (userId_movieId df)) vals)\<rparr>"
proof -
  have "\<not> list_ex (\<lambda>(u, m). int nrows \<le> u \<or> int ncols \<le> m \<or> u < 0 \<or> m < 0) (userId_movieId df)"
    using assms(3) by (auto simp: in_range_def list_all_iff list_ex_iff)
  then show ?thesis using assms(1,2) by (simp add: df2matrix_def)
qed

lemma df2matrix_Inr_iff:
  "df2matrix df nrows ncols c = Inr Y \<Longrightarrow>
     (\<exists>vals. float_cols df c = Some vals \<and> length vals = length (userId_movieId df)) \<and>
     in_range df nrows ncols"
  by (auto simp: df2matrix_def Let_def in_range_def list_all_iff list_ex_iff
           split: option.splits if_splits)

text \<open>
  Claim C1, as the code has it. For a table whose value column is present and whose indices
  are within the bounds, \<^verbatim>\<open>df2matrix\<close> returns a matrix of the requested shape
  whose stored positions are the index pairs of the table: \<open>nnz\<close> is the number of
  distinct pairs, which is the number of rows when no pair is repeated, and the value stored
  at a pair is the sum of the values of all rows with that pair.
\<close>

theorem df2matrix_sums_duplicates:
  assumes col: "float_cols df column_name = Some vals"
    and len: "length vals = length (userId_movieId df)"
    and rng: "in_range df nrows ncols"
  shows "\<exists>Y. df2matrix df nrows ncols column_name = Inr Y \<and>
           sp_shape Y = (nrows, ncols) \<and>
           nnz Y = card (set (userId_movieId df)) \<and>
           (distinct (userId_movieId df) \<longrightarrow> nnz Y = length (userId_movieId df)) \<and>
           fst ` set (entries Y) = nat_pair ` set (userId_movieId df) \<and>
           (\<forall>p \<in> set (userId_movieId df).
              map_of (entries Y) (nat_pair p) =
                Some (sum_list (values_at p (zip (userId_movieId df) vals))))"
proof -
  let ?ind = "userId_movieId df"
  let ?ts = "zip (map nat_pair ?ind) vals"
  let ?Y = "\<lparr>sp_shape = (nrows, ncols), entries = sum_duplicates ?ts\<rparr>"
  have keys: "fst ` set ?ts = nat_pair ` set ?ind"
  proof -
    have "map fst ?ts = map nat_pair ?ind" using len by (simp add: map_fst_zip)
    then have "set (map fst ?ts) = set (map nat_pair ?ind)" by simp
    then show ?thesis by simp
  qed
  have card: "card (nat_pair ` set ?ind) = card (set ?ind)"
    by (rule card_image[OF in_range_inj[OF rng]])
  have nnz: "nnz ?Y = card (set ?ind)"
    by (simp add: nnz_def length_sum_duplicates keys card)
  have look: "map_of (entries ?Y) (nat_pair p) = Some (sum_list (values_at p (zip ?ind vals)))"
    if "p \<in> set ?ind" for p
    using that by (simp add: map_of_sum_duplicates keys values_at_map_inj[OF in_range_inj[OF rng]])
  show ?thesis
    apply (rule exI[of _ ?Y])
    apply (intro conjI)
         apply (rule df2matrix_ok[OF col len rng])
        apply simp
       apply (rule nnz)
      apply (simp add: nnz distinct_card)
     apply (simp add: keys_sum_duplicates keys)
    using look apply blast
    done
qed

theorem df2matrix_sums_duplicates_witness:
  "\<exists>Y. df2matrix dup_table 1 1 ''rating'' = Inr Y \<and> nnz Y = 1 \<and>
        map_of (entries Y) (0, 0) = Some (Fin 3)"
proof -
  have c: "float_cols dup_table ''rating'' = Some [Fin 1, Fin 2]"
    and l: "length [Fin 1, Fin 2] = length (userId_movieId dup_table)"
    and r: "in_range dup_table 1 1"
    by (simp_all add: dup_table_def in_range_def)
  have s: "set (userId_movieId dup_table) = {(0, 0)}" by (simp add: dup_table_def)
  have v: "sum_list (values_at (0, 0) (zip (userId_movieId dup_table) [Fin 1, Fin 2])) = Fin 3"
    by (simp add: dup_table_def values_at_def)
  from df2matrix_sums_duplicates[OF c l r] show ?thesis
    unfolding s by (auto simp: v nat_pair_def)
qed

text \<open>
  Claim C1 as stated fails on a table with a repeated pair: two rows \<open>(0, 0, 1)\<close> and
  \<open>(0, 0, 2)\<close> give one stored entry, not two, and its value is 3, not the last
  row's 2.
\<close>

theorem df2matrix_duplicates_counterexample:
  "df2matrix dup_table 1 1 ''rating'' = Inr \<lparr>sp_shape = (1, 1), entries = [((0, 0), Fin 3)]\<rparr> \<and>
   nnz \<lparr>sp_shape = (1, 1), entries = [((0, 0), Fin 3)]\<rparr> \<noteq> length (userId_movieId dup_table) \<and>
   sp_lookup \<lparr>sp_shape = (1, 1), entries = [((0, 0), Fin 3)]\<rparr> (0, 0) \<noteq> last [Fin 1, Fin 2]"
  by (simp add: dup_table_def df2matrix_def sum_duplicates_def nnz_def sp_lookup_def nat_pair_def)

text \<open>
  Claim C9. If some user index or item index of the table is not below its bound, the build
  raises and returns no matrix; when the value column exists the exception is the
  constructor's ValueError for an index beyond the shape.
\<close>

theorem df2matrix_index_out_of_range:
  assumes "\<exists>(u, m) \<in> set (userId_movieId df). int nrows \<le> u \<or> int ncols \<le> m"
  shows "(\<exists>e. df2matrix df nrows ncols column_name = Inl e) \<and>
         (float_cols df column_name \<noteq> None \<longrightarrow>
            df2matrix df nrows ncols column_name = Inl ValueError)"
proof -
  have "list_ex (\<lambda>(u, m). int nrows \<le> u \<or> int ncols \<le> m \<or> u < 0 \<or> m < 0) (userId_movieId df)"
    using assms by (auto simp: list_ex_iff)
  then show ?thesis by (auto simp: df2matrix_def Let_def split: option.splits)
qed

theorem df2matrix_index_out_of_range_witness:
  "(\<exists>(u, m) \<in> set (userId_movieId bad_table). int 2 \<le> u \<or> int 2 \<le> m) \<and>
   df2matrix bad_table 2 2 ''rating'' = Inl ValueError"
proof -
  have h: "\<exists>(u, m) \<in> set (userId_movieId bad_table). int 2 \<le> u \<or> int 2 \<le> m"
    by (simp add: bad_table_def)
  have c: "float_cols bad_table ''rating'' \<noteq> None" by (simp add: bad_table_def)
  from df2matrix_index_out_of_range[OF h, of "''rating''"] c h show ?thesis by blast
qed

subsection \<open>The masked predictor\<close>

lemma in_range_D:
  "in_range df nrows ncols \<Longrightarrow> (u, m) \<in> set (userId_movieId df) \<Longrightarrow>
     0 \<le> u \<and> u < int nrows \<and> 0 \<le> m \<and> m < int ncols"
  by (auto simp: in_range_def list_all_iff)

lemma get_rows_ok:
  "\<forall>i \<in> set idx. 0 \<le> i \<and> i < int (shape0 A) \<Longrightarrow>
     get_rows A idx = Inr (map (\<lambda>i. rowlist A ! nat i) idx)"
  by (induction idx) (auto simp: get_row_def)

lemma take_rows_ok:
  "\<forall>i \<in> set idx. 0 \<le> i \<and> i < int (shape0 A) \<Longrightarrow>
     take_rows A idx = Inr \<lparr>shape1 = shape1 A, rowlist = map (\<lambda>i. rowlist A ! nat i) idx\<rparr>"
  by (simp add: take_rows_def get_rows_ok)

lemma get_rows_length: "get_rows A idx = Inr rs \<Longrightarrow> length rs = length idx"
  by (induction idx arbitrary: rs) (auto split: sum.splits)

lemma take_rows_Inr:
  "take_rows A idx = Inr R \<Longrightarrow> shape1 R = shape1 A \<and> shape0 R = length idx"
  by (auto simp: take_rows_def shape0_def get_rows_length split: sum.splits)

lemma bcast_list_same_length:
  "length xs = length ys \<Longrightarrow> bcast_list g xs ys = map2 g xs ys"
  by (simp add: bcast_list_def)

lemma fst_set_zip: "length xs = length ys \<Longrightarrow> fst ` set (zip xs ys) = set xs"
  by (metis map_fst_zip set_map)

lemma nd_binop_same_rows:
  "shape0 A = shape0 B \<Longrightarrow> bcast_ok (shape1 A) (shape1 B) \<Longrightarrow>
     nd_binop f A B = Inr \<lparr>shape1 = bcast_dim (shape1 A) (shape1 B),
                            rowlist = map2 (bcast_list f) (rowlist A) (rowlist B)\<rparr>"
  by (simp add: nd_binop_def bcast_ok_def shape0_def bcast_list_same_length)

lemma nd_binop_Inr_ok: "nd_binop f A B = Inr C \<Longrightarrow> bcast_ok (shape1 A) (shape1 B)"
  by (auto simp: nd_binop_def split: if_splits)

lemma in_range_float_cols [simp]:
  "in_range (df\<lparr>float_cols := c\<rparr>) nrows ncols = in_range df nrows ncols"
  by (simp add: in_range_def)

lemma sparse_multiply_ok:
  assumes rng: "in_range df (shape0 U) (shape0 V)" and k: "bcast_ok (shape1 U) (shape1 V)"
  shows "sparse_multiply df U V =
     (Inr \<lparr>sp_shape = (shape0 U, shape0 V),
           entries = sum_duplicates (zip (map nat_pair (userId_movieId df))
                                         (bcast_predictions U V (userId_movieId df)))\<rparr>,
      df\<lparr>float_cols := (float_cols df)(''Prediction'' \<mapsto> bcast_predictions U V (userId_movieId df))\<rparr>)"
proof -
  let ?ind = "userId_movieId df"
  let ?ru = "\<lparr>shape1 = shape1 U, rowlist = map (\<lambda>i. rowlist U ! nat i) (map fst ?ind)\<rparr>"
  let ?rm = "\<lparr>shape1 = shape1 V, rowlist = map (\<lambda>i. rowlist V ! nat i) (map snd ?ind)\<rparr>"
  have tu: "take_rows U (map fst ?ind) = Inr ?ru"
    using in_range_D[OF rng] by (intro take_rows_ok) auto
  have tm: "take_rows V (map snd ?ind) = Inr ?rm"
    using in_range_D[OF rng] by (intro take_rows_ok) auto
  let ?prod = "\<lparr>shape1 = bcast_dim (shape1 U) (shape1 V),
                rowlist = map2 (bcast_list fmul) (rowlist ?ru) (rowlist ?rm)\<rparr>"
  have pr: "nd_binop fmul ?ru ?rm = Inr ?prod"
    using nd_binop_same_rows[of ?ru ?rm fmul] k by (simp add: shape0_def)
  have sums: "sum_axis1 ?prod = bcast_predictions U V ?ind"
    by (simp add: sum_axis1_def bcast_predictions_def zip_map_map comp_def case_prod_unfold
                  zip_same_conv_map)
  let ?df' = "df\<lparr>float_cols := (float_cols df)(''Prediction'' \<mapsto> bcast_predictions U V ?ind)\<rparr>"
  have m: "df2matrix ?df' (shape0 U) (shape0 V) ''Prediction'' =
      Inr \<lparr>sp_shape = (shape0 U, shape0 V),
           entries = sum_duplicates (zip (map nat_pair ?ind)
                                         (bcast_predictions U V ?ind))\<rparr>"
    using df2matrix_ok[of ?df' "''Prediction''" "bcast_predictions U V ?ind" "shape0 U" "shape0 V"]
    by (simp add: rng bcast_predictions_def)
  show ?thesis
    by (simp only: sparse_multiply_def tu tm pr sum.case Let_def sums m)
qed

lemma sparse_multiply_Inr_D:
  assumes "sparse_multiply df U V = (Inr P, df')"
  shows "in_range df (shape0 U) (shape0 V) \<and> bcast_ok (shape1 U) (shape1 V)"
proof -
  from assms obtain ru rm products where
    tu: "take_rows U (map fst (userId_movieId df)) = Inr ru" and
    tm: "take_rows V (map snd (userId_movieId df)) = Inr rm" and
    pr: "nd_binop fmul ru rm = Inr products" and
    m: "df2matrix (df\<lparr>float_cols := (float_cols df)(''Prediction'' \<mapsto> sum_axis1 products)\<rparr>)
          (shape0 U) (shape0 V) ''Prediction'' = Inr P"
    by (auto simp: sparse_multiply_def Let_def split: sum.splits)
  from df2matrix_Inr_iff[OF m] have "in_range df (shape0 U) (shape0 V)" by simp
  moreover from nd_binop_Inr_ok[OF pr] take_rows_Inr[OF tu] take_rows_Inr[OF tm]
  have "bcast_ok (shape1 U) (shape1 V)" by simp
  ultimately show ?thesis ..
qed

lemma length_bcast_predictions [simp]: "length (bcast_predictions U V ind) = length ind"
  by (simp add: bcast_predictions_def)

lemma int_pair_nat_pair:
  "0 \<le> fst p \<Longrightarrow> 0 \<le> snd p \<Longrightarrow> (\<lambda>(i, j). (int i, int j)) (nat_pair p) = p"
  by (cases p) (simp add: nat_pair_def)

text \<open>
  Claim C6. The masked predictor returns a matrix whenever the indices are within the
  embeddings' row counts and the factor counts are compatible; and whenever it returns a
  matrix, the stored positions of that matrix are exactly the index pairs of the table, one
  entry per distinct pair.
\<close>

theorem sparse_multiply_pattern:
  "(in_range df (shape0 U) (shape0 V) \<and> bcast_ok (shape1 U) (shape1 V) \<longrightarrow>
      (\<exists>P df'. sparse_multiply df U V = (Inr P, df'))) \<and>
   (\<forall>P df'. sparse_multiply df U V = (Inr P, df') \<longrightarrow>
      (\<lambda>(i, j). (int i, int j)) ` fst ` set (entries P) = set (userId_movieId df) \<and>
      fst ` set (entries P) = nat_pair ` set (userId_movieId df) \<and>
      distinct (map fst (entries P)) \<and>
      nnz P = card (set (userId_movieId df)) \<and>
      sp_shape P = (shape0 U, shape0 V))"
proof (intro conjI impI allI)
  assume "in_range df (shape0 U) (shape0 V) \<and> bcast_ok (shape1 U) (shape1 V)"
  then show "\<exists>P df'. sparse_multiply df U V = (Inr P, df')"
    using sparse_multiply_ok[of df U V] by blast
next
  fix P df'
  assume s: "sparse_multiply df U V = (Inr P, df')"
  let ?ind = "userId_movieId df"
  from sparse_multiply_Inr_D[OF s]
  have rng: "in_range df (shape0 U) (shape0 V)" and k: "bcast_ok (shape1 U) (shape1 V)" by simp_all
  from s sparse_multiply_ok[OF rng k]
  have P: "P = \<lparr>sp_shape = (shape0 U, shape0 V),
           entries = sum_duplicates (zip (map nat_pair ?ind) (bcast_predictions U V ?ind))\<rparr>"
    by simp
  have keys: "fst ` set (zip (map nat_pair ?ind) (bcast_predictions U V ?ind)) = nat_pair ` set ?ind"
    by (simp add: fst_set_zip)
  show pat: "fst ` set (entries P) = nat_pair ` set ?ind"
    by (simp add: P keys_sum_duplicates keys)
  have "(\<lambda>(i, j). (int i, int j)) ` nat_pair ` set ?ind = set ?ind"
  proof -
    have "(\<lambda>(i, j). (int i, int j)) (nat_pair p) = p" if "p \<in> set ?ind" for p
      using in_range_nonneg[OF rng] that by (intro int_pair_nat_pair) auto
    then have "(\<lambda>p. (\<lambda>(i, j). (int i, int j)) (nat_pair p)) ` set ?ind = set ?ind" by simp
    then show ?thesis by (simp add: image_image)
  qed
  then show "(\<lambda>(i, j). (int i, int j)) ` fst ` set (entries P) = set ?ind"
    unfolding pat .
  show "distinct (map fst (entries P))" by (simp add: P distinct_sum_duplicates)
  show "nnz P = card (set ?ind)"
    by (simp add: P nnz_def length_sum_duplicates keys card_image[OF in_range_inj[OF rng]])
  show "sp_shape P = (shape0 U, shape0 V)" by (simp add: P)
qed


theorem sparse_multiply_pattern_witness:
  "\<exists>P df'. sparse_multiply example_table eye2 eye2 = (Inr P, df') \<and>
      fst ` set (entries P) = {(0, 0), (1, 1)} \<and> nnz P = 2"
proof -
  have h: "in_range example_table (shape0 eye2) (shape0 eye2) \<and> bcast_ok (shape1 eye2) (shape1 eye2)"
    by (simp add: in_range_def example_table_def eye2_def shape0_def bcast_ok_def)
  have s: "set (userId_movieId example_table) = {(0, 0), (1, 1)}"
    by (simp add: example_table_def)
  have c: "card {(0, 0), (1, 1 :: int) :: int \<times> int} = 2" by simp
  note t = sparse_multiply_pattern[of example_table eye2 eye2]
  have "\<exists>P df'. sparse_multiply example_table eye2 eye2 = (Inr P, df')"
    by (rule mp[OF conjunct1[OF t] h])
  then obtain P df' where p: "sparse_multiply example_table eye2 eye2 = (Inr P, df')"
    by (elim exE)
  note q = conjunct2[OF t, rule_format, OF p]
  have "fst ` set (entries P) = nat_pair ` set (userId_movieId example_table)"
    "nnz P = card (set (userId_movieId example_table))"
    using q by (rule conjunct2[THEN conjunct1], rule conjunct2[THEN conjunct2, THEN conjunct2, THEN conjunct1])
  then have "fst ` set (entries P) = {(0, 0), (1, 1)}" "nnz P = 2"
    unfolding s c by (simp_all add: nat_pair_def)
  with p show ?thesis by (intro exI conjI)
qed

subsection \<open>The cost evaluator and the frame effect of a prediction\<close>

lemma wf_ndarray_nth: "wf_ndarray A \<Longrightarrow> i < shape0 A \<Longrightarrow> length (rowlist A ! i) = shape1 A"
  by (simp add: wf_ndarray_def list_all_length shape0_def)

lemma bcast_predictions_dot:
  assumes "in_range df (shape0 U) (shape0 V)" "wf_ndarray U" "wf_ndarray V" "shape1 U = shape1 V"
  shows "bcast_predictions U V (userId_movieId df) = predictions U V (userId_movieId df)"
  unfolding bcast_predictions_def predictions_def
proof (rule map_cong[OF refl])
  fix p assume p: "p \<in> set (userId_movieId df)"
  obtain u m where pm: "p = (u, m)" by (cases p)
  from in_range_D[OF assms(1), of u m] p pm have "nat u < shape0 U" "nat m < shape0 V"
    by simp_all linarith+
  then have "length (rowlist U ! nat u) = length (rowlist V ! nat m)"
    using assms(2-4) by (simp add: wf_ndarray_nth)
  then show "(case p of (u, m) \<Rightarrow> sum_list (bcast_list fmul (rowlist U ! nat u) (rowlist V ! nat m)))
           = (case p of (u, m) \<Rightarrow> dot (rowlist U ! nat u) (rowlist V ! nat m))"
    by (simp add: pm dot_def bcast_list_same_length)
qed

lemma keys_dup_fold_cong:
  "map fst ts = map fst ts' \<Longrightarrow> map fst acc = map fst acc' \<Longrightarrow>
     map fst (dup_fold ts acc) = map fst (dup_fold ts' acc')"
proof (induction ts arbitrary: ts' acc acc')
  case Nil
  then show ?case by simp
next
  case (Cons t ts)
  obtain p v where t: "t = (p, v)" by (cases t)
  from Cons.prems(1) obtain v' ts'' where ts': "ts' = (p, v') # ts''" and m: "map fst ts = map fst ts''"
    by (cases ts') (auto simp: t)
  have a: "map fst (add_entry p v acc) = map fst (add_entry p v' acc')"
  proof -
    have "fst ` set acc = fst ` set acc'" using Cons.prems(2) by (metis set_map)
    then show ?thesis by (simp add: keys_add_entry Cons.prems(2))
  qed
  show ?case unfolding t ts' dup_fold_simps by (rule Cons.IH[OF m a])
qed

lemma keys_sum_duplicates_cong:
  "map fst ts = map fst ts' \<Longrightarrow> map fst (sum_duplicates ts) = map fst (sum_duplicates ts')"
  using keys_dup_fold_cong[of ts ts' "[]" "[]"] by (simp add: sum_duplicates_def dup_fold_def)

lemma sp_lookup_entry:
  "distinct (map fst (entries A)) \<Longrightarrow> (p, a) \<in> set (entries A) \<Longrightarrow> sp_lookup A p = a"
  by (simp add: sp_lookup_def)

lemma sp_sub_same_pattern:
  assumes keys: "map fst (entries A) = map fst (entries B)"
    and dist: "distinct (map fst (entries A))"
    and shp: "sp_shape A = sp_shape B"
  shows "sp_sub A B = Inr \<lparr>sp_shape = sp_shape A,
           entries = filter (\<lambda>(p, v). v \<noteq> 0)
             (map (\<lambda>p. (p, fsub (sp_lookup A p) (sp_lookup B p))) (map fst (entries A)))\<rparr>"
proof -
  have 1: "map (\<lambda>(p, a). (p, fsub a (sp_lookup B p))) (entries A)
         = map (\<lambda>p. (p, fsub (sp_lookup A p) (sp_lookup B p))) (map fst (entries A))"
    unfolding map_map
  proof (rule map_cong[OF refl])
    fix e assume e: "e \<in> set (entries A)"
    obtain p a where pa: "e = (p, a)" by (cases e)
    with e sp_lookup_entry[OF dist] have "sp_lookup A p = a" by simp
    then show "(case e of (p, a) \<Rightarrow> (p, fsub a (sp_lookup B p)))
             = ((\<lambda>p. (p, fsub (sp_lookup A p) (sp_lookup B p))) \<circ> fst) e"
      by (simp add: pa)
  qed
  have 2: "filter (\<lambda>(p, b). map_of (entries A) p = None) (entries B) = []"
  proof -
    have "fst ` set (entries A) = fst ` set (entries B)" using keys by (metis set_map)
    then show ?thesis
      by (force simp: filter_empty_conv map_of_eq_None_iff)
  qed
  show ?thesis unfolding sp_sub_def 1 2 using shp by simp
qed

lemma sum_list_filter_nonzero:
  fixes g :: "'a \<Rightarrow> fval"
  assumes "\<And>x. x \<in> set xs \<Longrightarrow> \<not> P x \<Longrightarrow> g x = 0"
  shows "sum_list (map g (filter P xs)) = sum_list (map g xs)"
  using assms by (induction xs) auto

lemma fmul_zero_zero: "fmul 0 0 = 0"
  by (simp add: zero_fval_def)

lemma sp_sum_power2_filter:
  "sp_sum (sp_power2 \<lparr>sp_shape = s, entries = filter (\<lambda>(p, v). v \<noteq> 0) es\<rparr>)
     = sum_list (map (\<lambda>(p, v). fmul v v) es)"
proof -
  have "sum_list (map (\<lambda>(p, v). fmul v v) (filter (\<lambda>(p, v). v \<noteq> 0) es))
          = sum_list (map (\<lambda>(p, v). fmul v v) es)"
    by (rule sum_list_filter_nonzero) (auto simp: fmul_zero_zero)
  then show ?thesis
    by (simp add: sp_sum_def sp_power2_def comp_def case_prod_unfold)
qed

lemma sparse_multiply_ok':
  assumes "in_range df (shape0 U) (shape0 V)" "bcast_ok (shape1 U) (shape1 V)"
  shows "sparse_multiply df U V =
     (Inr \<lparr>sp_shape = (shape0 U, shape0 V),
           entries = sum_duplicates (zip (map nat_pair (userId_movieId df))
                                         (bcast_predictions U V (userId_movieId df)))\<rparr>,
      with_prediction df (bcast_predictions U V (userId_movieId df)))"
  unfolding with_prediction_def by (rule sparse_multiply_ok[OF assms])

lemma cost_ok:
  assumes col: "float_cols df ''rating'' = Some rs"
    and len: "length rs = length (userId_movieId df)"
    and rng: "in_range df (shape0 U) (shape0 V)"
    and k: "bcast_ok (shape1 U) (shape1 V)"
  defines "Y \<equiv> \<lparr>sp_shape = (shape0 U, shape0 V),
                  entries = sum_duplicates (zip (map nat_pair (userId_movieId df)) rs)\<rparr>"
    and "P \<equiv> \<lparr>sp_shape = (shape0 U, shape0 V),
                  entries = sum_duplicates (zip (map nat_pair (userId_movieId df))
                                         (bcast_predictions U V (userId_movieId df)))\<rparr>"
  shows "cost (Some df) U V =
     (Inr (Some (fdiv_count
        (sum_list (map (\<lambda>p. squared_error (sp_lookup Y p) (sp_lookup P p)) (map fst (entries Y))))
        (nnz Y))),
      Some (with_prediction df (bcast_predictions U V (userId_movieId df))))"
proof -
  have y: "df2matrix df (shape0 U) (shape0 V) ''rating'' = Inr Y"
    unfolding Y_def by (rule df2matrix_ok[OF col len rng])
  have p: "sparse_multiply df U V = (Inr P, with_prediction df (bcast_predictions U V (userId_movieId df)))"
    unfolding P_def by (rule sparse_multiply_ok'[OF rng k])
  have keys: "map fst (entries Y) = map fst (entries P)"
    unfolding Y_def P_def using len by (simp add: keys_sum_duplicates_cong)
  have dist: "distinct (map fst (entries Y))"
    by (simp add: Y_def distinct_sum_duplicates)
  have shp: "sp_shape Y = sp_shape P" by (simp add: Y_def P_def)
  note d = sp_sub_same_pattern[OF keys dist shp]
  have s: "sp_sum (sp_power2 \<lparr>sp_shape = sp_shape Y,
           entries = filter (\<lambda>(p, v). v \<noteq> 0)
             (map (\<lambda>p. (p, fsub (sp_lookup Y p) (sp_lookup P p))) (map fst (entries Y)))\<rparr>)
        = sum_list (map (\<lambda>p. squared_error (sp_lookup Y p) (sp_lookup P p)) (map fst (entries Y)))"
    unfolding sp_sum_power2_filter by (simp add: comp_def squared_error_def)
  show ?thesis
    by (simp only: cost.simps y p d s sum.case prod.case)
qed

lemma nth_zip_lookup:
  assumes "distinct ks" "length ks = length vs" "i < length ks"
  shows "sp_lookup \<lparr>sp_shape = s, entries = zip ks vs\<rparr> (ks ! i) = vs ! i"
proof -
  have "distinct (map fst (zip ks vs))" using assms by (simp add: map_fst_zip)
  moreover have "(ks ! i, vs ! i) \<in> set (zip ks vs)"
    using assms by (auto simp: set_zip)
  ultimately show ?thesis
    using sp_lookup_entry[of "\<lparr>sp_shape = s, entries = zip ks vs\<rparr>" "ks ! i" "vs ! i"] by simp
qed

lemma cost_distinct:
  assumes col: "float_cols df ''rating'' = Some rs"
    and len: "length rs = length (userId_movieId df)"
    and rng: "in_range df (shape0 U) (shape0 V)"
    and wf: "wf_ndarray U" "wf_ndarray V" "shape1 U = shape1 V"
    and dist: "distinct (userId_movieId df)"
  shows "fst (cost (Some df) U V) = Inr (Some (mse_observed (userId_movieId df) rs U V))"
proof -
  let ?ind = "userId_movieId df"
  let ?ks = "map nat_pair ?ind"
  let ?ds = "predictions U V ?ind"
  have k: "bcast_ok (shape1 U) (shape1 V)" using wf(3) by (simp add: bcast_ok_def)
  have bp: "bcast_predictions U V ?ind = ?ds"
    by (rule bcast_predictions_dot[OF rng wf])
  have dks: "distinct ?ks"
    using dist in_range_inj[OF rng] by (simp add: distinct_map)
  have sy: "sum_duplicates (zip ?ks rs) = zip ?ks rs"
    and sp: "sum_duplicates (zip ?ks ?ds) = zip ?ks ?ds"
    using dks len by (simp_all add: sum_duplicates_distinct map_fst_zip predictions_def)
  let ?Y = "\<lparr>sp_shape = (shape0 U, shape0 V), entries = zip ?ks rs\<rparr>"
  let ?P = "\<lparr>sp_shape = (shape0 U, shape0 V), entries = zip ?ks ?ds\<rparr>"
  have m: "map (\<lambda>p. squared_error (sp_lookup ?Y p) (sp_lookup ?P p)) ?ks
         = map (\<lambda>((u, m), r). squared_error r (dot (rowlist U ! nat u) (rowlist V ! nat m))) (zip ?ind rs)"
  proof (rule nth_equalityI)
    show "length (map (\<lambda>p. squared_error (sp_lookup ?Y p) (sp_lookup ?P p)) ?ks)
        = length (map (\<lambda>((u, m), r). squared_error r (dot (rowlist U ! nat u) (rowlist V ! nat m))) (zip ?ind rs))"
      using len by simp
  next
    fix i assume "i < length (map (\<lambda>p. squared_error (sp_lookup ?Y p) (sp_lookup ?P p)) ?ks)"
    then have i: "i < length ?ind" by simp
    then have i': "i < length ?ks" by simp
    have ly: "sp_lookup ?Y (?ks ! i) = rs ! i"
      using nth_zip_lookup[OF dks _ i', of rs] len by simp
    have lp: "sp_lookup ?P (?ks ! i) = ?ds ! i"
      using nth_zip_lookup[OF dks _ i', of ?ds] by (simp add: predictions_def)
    obtain u m where um: "?ind ! i = (u, m)" by (cases "?ind ! i")
    have "?ds ! i = dot (rowlist U ! nat u) (rowlist V ! nat m)"
      using i um by (simp add: predictions_def)
    with ly lp i len um
    show "map (\<lambda>p. squared_error (sp_lookup ?Y p) (sp_lookup ?P p)) ?ks ! i
        = map (\<lambda>((u, m), r). squared_error r (dot (rowlist U ! nat u) (rowlist V ! nat m))) (zip ?ind rs) ! i"
      by simp
  qed
  have n: "nnz ?Y = length ?ind" using len by (simp add: nnz_def)
  have ky: "map fst (entries ?Y) = ?ks" using len by (simp add: map_fst_zip)
  show ?thesis
    unfolding cost_ok[OF col len rng k] bp sy sp fst_conv ky m n mse_observed_def ..
qed

text \<open>
  Claim C5, as the code has it. For a table with its rating column, indices within the
  embeddings' row counts and no repeated index pair, and embeddings with the same number of
  factors, \<^verbatim>\<open>cost\<close> returns the sum over the rows of the square of rating minus dot
  product, divided by the number of rows. For the table with \<open>(0, 0) = 5\<close> and
  \<open>(1, 1) = 3\<close> and identity embeddings the cost is 10.
\<close>

theorem cost_mean_squared_error:
  assumes "float_cols df ''rating'' = Some rs"
    and "length rs = length (userId_movieId df)"
    and "in_range df (shape0 U) (shape0 V)"
    and "wf_ndarray U" "wf_ndarray V" "shape1 U = shape1 V"
    and "distinct (userId_movieId df)"
  shows "fst (cost (Some df) U V) = Inr (Some (mse_observed (userId_movieId df) rs U V)) \<and>
         fst (cost (Some example_table) eye2 eye2) = Inr (Some (Fin 10))"
proof
  show "fst (cost (Some df) U V) = Inr (Some (mse_observed (userId_movieId df) rs U V))"
    by (rule cost_distinct[OF assms])
  show "fst (cost (Some example_table) eye2 eye2) = Inr (Some (Fin 10))"
    by (simp add: example_table_def eye2_def df2matrix_def sparse_multiply_def take_rows_def
        get_row_def shape0_def nd_binop_def bcast_ok_def bcast_dim_def bcast_list_def
        sum_axis1_def sum_duplicates_def sp_sub_def sp_lookup_def fsub_def zero_fval_def
        sp_power2_def sp_sum_def nnz_def nat_pair_def)
qed

theorem cost_mean_squared_error_witness:
  "fst (cost (Some example_table) eye2 eye2)
     = Inr (Some (mse_observed (userId_movieId example_table) [Fin 5, Fin 3] eye2 eye2)) \<and>
   mse_observed (userId_movieId example_table) [Fin 5, Fin 3] eye2 eye2 = Fin 10"
proof -
  have "fst (cost (Some example_table) eye2 eye2)
     = Inr (Some (mse_observed (userId_movieId example_table) [Fin 5, Fin 3] eye2 eye2))"
    by (rule cost_mean_squared_error[THEN conjunct1])
       (simp_all add: example_table_def eye2_def in_range_def shape0_def wf_ndarray_def)
  moreover have "mse_observed (userId_movieId example_table) [Fin 5, Fin 3] eye2 eye2 = Fin 10"
    by (simp add: mse_observed_def example_table_def eye2_def squared_error_def dot_def fsub_def
                  zero_fval_def)
  ultimately show ?thesis ..
qed

text \<open>
  Claim C5 as stated fails on a table with a repeated pair: for the rows \<open>(0, 0, 5)\<close>
  twice and both embeddings \<open>[[1]]\<close> the code compares the summed rating 10 with the
  summed prediction 2 and returns 64, where rating minus dot product squared is 16 at the
  one observed position, and 16 on average over the two rows.
\<close>

theorem cost_duplicates_counterexample:
  "fst (cost (Some twice_table) one1 one1) = Inr (Some (Fin 64)) \<and>
   mse_observed (userId_movieId twice_table) [Fin 5, Fin 5] one1 one1 = Fin 16"
  by (simp add: twice_table_def one1_def df2matrix_def sparse_multiply_def take_rows_def
        get_row_def shape0_def nd_binop_def bcast_ok_def bcast_dim_def bcast_list_def
        sum_axis1_def sum_duplicates_def sp_sub_def sp_lookup_def fsub_def zero_fval_def
        sp_power2_def sp_sum_def nnz_def nat_pair_def mse_observed_def squared_error_def dot_def)

lemma map_const_replicate: "map (\<lambda>x. c) xs = replicate (length xs) c"
  by (induction xs) simp_all

lemma sp_matmul_empty:
  "m = shape0 A \<Longrightarrow>
     sp_matmul \<lparr>sp_shape = (n, m), entries = []\<rparr> A = Inr (full n (shape1 A) 0)"
  by (simp add: sp_matmul_def full_def map_const_replicate)

lemma scaled_product_empty:
  "m = shape0 A \<Longrightarrow>
     scaled_product \<lparr>sp_shape = (n, m), entries = []\<rparr> A 0 = Inr (full n (shape1 A) NaN)"
  by (simp add: scaled_product_def sp_scale_def sp_matmul_empty)
     (simp add: full_def nd_map_def zero_fval_def sgn_inf_def)

lemma gradient_snd: "snd (gradient df Y U V) = snd (sparse_multiply df U V)"
  by (simp add: gradient_def Let_def split: prod.splits sum.splits)

text \<open>
  Claim C2, as the code has it. For a table with no rows, \<^verbatim>\<open>cost\<close> returns NaN and
  \<^verbatim>\<open>gradient\<close> returns two arrays filled with NaN; neither raises.
\<close>

theorem cost_gradient_empty_dataset:
  assumes e: "userId_movieId df = []" and c: "float_cols df ''rating'' = Some []"
    and k: "bcast_ok (shape1 U) (shape1 V)"
  shows "fst (cost (Some df) U V) = Inr (Some NaN) \<and>
         (\<exists>Y. df2matrix df (shape0 U) (shape0 V) ''rating'' = Inr Y \<and> nnz Y = 0 \<and>
              fst (gradient df Y U V)
                = Inr (full (shape0 U) (shape1 V) NaN, full (shape0 V) (shape1 U) NaN))"
proof
  have rng: "in_range df (shape0 U) (shape0 V)" by (simp add: in_range_def e)
  have len: "length ([] :: fval list) = length (userId_movieId df)" by (simp add: e)
  show "fst (cost (Some df) U V) = Inr (Some NaN)"
    unfolding cost_ok[OF c len rng k]
    by (simp add: e sum_duplicates_def nnz_def zero_fval_def sgn_inf_def)
  let ?Y = "\<lparr>sp_shape = (shape0 U, shape0 V), entries = []\<rparr>"
  have y: "df2matrix df (shape0 U) (shape0 V) ''rating'' = Inr ?Y"
    using df2matrix_ok[OF c len rng] by (simp add: e sum_duplicates_def)
  have p: "fst (sparse_multiply df U V) = Inr ?Y"
    unfolding sparse_multiply_ok[OF rng k] by (simp add: e sum_duplicates_def bcast_predictions_def)
  have d: "sp_sub ?Y ?Y = Inr ?Y" by (simp add: sp_sub_def)
  have t: "sp_transpose ?Y = \<lparr>sp_shape = (shape0 V, shape0 U), entries = []\<rparr>"
    by (simp add: sp_transpose_def)
  have g: "fst (gradient df ?Y U V)
             = Inr (full (shape0 U) (shape1 V) NaN, full (shape0 V) (shape1 U) NaN)"
    using p by (cases "sparse_multiply df U V")
      (simp add: gradient_def Let_def nnz_def d t scaled_product_empty)
  show "\<exists>Y. df2matrix df (shape0 U) (shape0 V) ''rating'' = Inr Y \<and> nnz Y = 0 \<and>
              fst (gradient df Y U V)
                = Inr (full (shape0 U) (shape1 V) NaN, full (shape0 V) (shape1 U) NaN)"
    by (rule exI[of _ ?Y]) (simp add: y g nnz_def)
qed

theorem cost_gradient_empty_dataset_witness:
  "fst (cost (Some empty_table) eye2 eye2) = Inr (Some NaN) \<and>
   (\<exists>Y. df2matrix empty_table 2 2 ''rating'' = Inr Y \<and> nnz Y = 0 \<and>
        fst (gradient empty_table Y eye2 eye2) = Inr (full 2 2 NaN, full 2 2 NaN))"
proof -
  have "userId_movieId empty_table = []" "float_cols empty_table ''rating'' = Some []"
    "bcast_ok (shape1 eye2) (shape1 eye2)"
    by (simp_all add: empty_table_def bcast_ok_def)
  note t = cost_gradient_empty_dataset[OF this]
  have sh: "shape0 eye2 = 2" "shape1 eye2 = 2" by (simp_all add: eye2_def shape0_def)
  from t show ?thesis unfolding sh .
qed

text \<open>
  Claim C2 as stated fails: on the empty table the cost evaluation and the gradient
  computation return NaN values, not an error.
\<close>

theorem cost_empty_dataset_counterexample:
  "fst (cost (Some empty_table) eye2 eye2) = Inr (Some NaN) \<and>
   fst (gradient empty_table \<lparr>sp_shape = (2, 2), entries = []\<rparr> eye2 eye2)
     = Inr (\<lparr>shape1 = 2, rowlist = [[NaN, NaN], [NaN, NaN]]\<rparr>,
            \<lparr>shape1 = 2, rowlist = [[NaN, NaN], [NaN, NaN]]\<rparr>)"
  by (simp add: empty_table_def eye2_def df2matrix_def sparse_multiply_def take_rows_def
        shape0_def nd_binop_def bcast_ok_def bcast_dim_def bcast_list_def
        sum_axis1_def sum_duplicates_def sp_sub_def sp_power2_def sp_sum_def nnz_def
        gradient_def scaled_product_def sp_scale_def sp_matmul_def sp_transpose_def nd_map_def
        zero_fval_def sgn_inf_def eval_nat_numeral)

text \<open>
  Claim C10. A masked prediction leaves the caller's dataframe with its
  \<^verbatim>\<open>Prediction\<close> column set to the dot products of the rows, whatever the column
  held before, and so do a cost evaluation and a gradient computation; the index columns
  and every other float column are as before.
\<close>

theorem sparse_multiply_writes_prediction:
  assumes rng: "in_range df (shape0 U) (shape0 V)"
    and wf: "wf_ndarray U" "wf_ndarray V" "shape1 U = shape1 V"
  shows "(\<exists>P. sparse_multiply df U V
             = (Inr P, with_prediction df (predictions U V (userId_movieId df)))) \<and>
         (float_cols df ''rating'' = Some rs \<and> length rs = length (userId_movieId df) \<longrightarrow>
            (\<exists>c. cost (Some df) U V
               = (Inr c, Some (with_prediction df (predictions U V (userId_movieId df)))))) \<and>
         snd (gradient df Y U V) = with_prediction df (predictions U V (userId_movieId df)) \<and>
         userId_movieId (with_prediction df col) = userId_movieId df \<and>
         float_cols (with_prediction df col) ''Prediction'' = Some col \<and>
         (\<forall>name. name \<noteq> ''Prediction'' \<longrightarrow>
            float_cols (with_prediction df col) name = float_cols df name)"
proof -
  have k: "bcast_ok (shape1 U) (shape1 V)" using wf(3) by (simp add: bcast_ok_def)
  note bp = bcast_predictions_dot[OF rng wf]
  note sm = sparse_multiply_ok'[OF rng k, unfolded bp]
  have 1: "\<exists>P. sparse_multiply df U V
             = (Inr P, with_prediction df (predictions U V (userId_movieId df)))"
    unfolding sm by blast
  have 2: "\<exists>c. cost (Some df) U V
               = (Inr c, Some (with_prediction df (predictions U V (userId_movieId df))))"
    if "float_cols df ''rating'' = Some rs" "length rs = length (userId_movieId df)"
    unfolding cost_ok[OF that rng k] bp by blast
  have 3: "snd (gradient df Y U V) = with_prediction df (predictions U V (userId_movieId df))"
    unfolding gradient_snd sm by simp
  show ?thesis using 1 2 3 by (simp add: with_prediction_def)
qed

theorem sparse_multiply_writes_prediction_witness:
  "(\<exists>P. sparse_multiply example_table eye2 eye2
       = (Inr P, with_prediction example_table [Fin 1, Fin 1])) \<and>
   (\<exists>c. cost (Some example_table) eye2 eye2
       = (Inr c, Some (with_prediction example_table [Fin 1, Fin 1]))) \<and>
   float_cols (with_prediction example_table [Fin 1, Fin 1]) ''rating'' = Some [Fin 5, Fin 3]"
proof -
  have h: "in_range example_table (shape0 eye2) (shape0 eye2)" "wf_ndarray eye2" "wf_ndarray eye2"
    "shape1 eye2 = shape1 eye2"
    by (simp_all add: in_range_def example_table_def eye2_def shape0_def wf_ndarray_def)
  have r: "float_cols example_table ''rating'' = Some [Fin 5, Fin 3] \<and>
           length [Fin 5, Fin 3] = length (userId_movieId example_table)"
    by (simp add: example_table_def)
  have p: "predictions eye2 eye2 (userId_movieId example_table) = [Fin 1, Fin 1]"
    by (simp add: predictions_def example_table_def eye2_def dot_def zero_fval_def)
  note t = sparse_multiply_writes_prediction[OF h,
      where rs = "[Fin 5, Fin 3]" and col = "[Fin 1, Fin 1]"
        and Y = "\<lparr>sp_shape = (2, 2), entries = []\<rparr>", unfolded p]
  have n: "''rating'' \<noteq> ''Prediction''" by simp
  from t r n show ?thesis by (metis)
qed

subsection \<open>The gradient computer\<close>









lemma scaled_product_shape:
  assumes "snd (sp_shape S) = shape0 A"
  shows "\<exists>G. scaled_product S A N = Inr G \<and> shape1 G = shape1 A \<and>
             shape0 G = fst (sp_shape S) \<and> wf_ndarray G"
  using assms
  by (simp add: scaled_product_def sp_matmul_def sp_scale_def nd_map_def shape0_def
                wf_ndarray_def list_all_iff)






text \<open>what \<^verbatim>\<open>gradient\<close> computes on a table that was built into \<open>Y\<close>\<close>
lemma gradient_unfold:
  assumes Y: "df2matrix df (shape0 U) (shape0 V) ''rating'' = Inr Y"
    and k: "bcast_ok (shape1 U) (shape1 V)"
  defines "P \<equiv> \<lparr>sp_shape = (shape0 U, shape0 V),
                  entries = sum_duplicates (zip (map nat_pair (userId_movieId df))
                                         (bcast_predictions U V (userId_movieId df)))\<rparr>"
    and "df' \<equiv> with_prediction df (bcast_predictions U V (userId_movieId df))"
  defines "D \<equiv> \<lparr>sp_shape = (shape0 U, shape0 V),
                  entries = filter (\<lambda>(p, v). v \<noteq> 0)
                     (map (\<lambda>p. (p, residual Y P p)) (map fst (entries Y)))\<rparr>"
  shows "sparse_multiply df U V = (Inr P, df')"
    and "map fst (entries P) = map fst (entries Y)"
    and "distinct (map fst (entries Y))"
    and "set (map fst (entries Y)) = nat_pair ` set (userId_movieId df)"
    and "sp_shape Y = (shape0 U, shape0 V)"
    and "gradient df Y U V =
          (case scaled_product D V (nnz Y) of
             Inl e \<Rightarrow> (Inl e, df')
           | Inr grad_user \<Rightarrow>
               (case scaled_product (sp_transpose D) U (nnz Y) of
                  Inl e \<Rightarrow> (Inl e, df')
                | Inr grad_movie \<Rightarrow> (Inr (grad_user, grad_movie), df')))"
proof -
  from df2matrix_Inr_iff[OF Y] obtain rs where col: "float_cols df ''rating'' = Some rs"
    and len: "length rs = length (userId_movieId df)"
    and rng: "in_range df (shape0 U) (shape0 V)" by blast
  have Yeq: "Y = \<lparr>sp_shape = (shape0 U, shape0 V),
                  entries = sum_duplicates (zip (map nat_pair (userId_movieId df)) rs)\<rparr>"
    using df2matrix_ok[OF col len rng] Y by simp
  show sm: "sparse_multiply df U V = (Inr P, df')"
    unfolding P_def df'_def by (rule sparse_multiply_ok'[OF rng k])
  show keys: "map fst (entries P) = map fst (entries Y)"
    unfolding Yeq P_def using len by (simp add: keys_sum_duplicates_cong)
  show dist: "distinct (map fst (entries Y))"
    by (simp add: Yeq distinct_sum_duplicates)
  show "set (map fst (entries Y)) = nat_pair ` set (userId_movieId df)"
    unfolding Yeq using len by (simp add: keys_sum_duplicates fst_set_zip)
  show shp: "sp_shape Y = (shape0 U, shape0 V)" by (simp add: Yeq)
  have shp2: "sp_shape Y = sp_shape P" by (simp add: shp P_def)
  have d: "sp_sub Y P = Inr D"
    unfolding D_def using sp_sub_same_pattern[OF keys[symmetric] dist shp2]
    by (simp add: residual_def shp)
  show "gradient df Y U V =
          (case scaled_product D V (nnz Y) of
             Inl e \<Rightarrow> (Inl e, df')
           | Inr grad_user \<Rightarrow>
               (case scaled_product (sp_transpose D) U (nnz Y) of
                  Inl e \<Rightarrow> (Inl e, df')
                | Inr grad_movie \<Rightarrow> (Inr (grad_user, grad_movie), df')))"
    by (simp only: gradient_def Let_def sm prod.case sum.case d)
qed






subsection \<open>The trainer\<close>

lemma has_shape_nd_map: "has_shape A n k \<Longrightarrow> has_shape (nd_map f A) n k"
  by (simp add: has_shape_def nd_map_def shape0_def wf_ndarray_def list_all_iff)

lemma has_shape_full: "has_shape (full n k x) n k"
  by (simp add: has_shape_def full_def shape0_def wf_ndarray_def list_all_iff)

lemma map2_bcast_rows:
  assumes "\<forall>p \<in> set (zip xs ys). length (fst p) = length (snd p)"
  shows "map2 (bcast_list f) xs ys = map2 (map2 f) xs ys"
  using assms by (intro map_cong[OF refl]) (auto simp: bcast_list_same_length)

lemma nd_binop_has_shape:
  assumes A: "has_shape A n k" and B: "has_shape B n k"
  shows "nd_binop f A B = Inr (nd_zip f A B)" and "has_shape (nd_zip f A B) n k"
proof -
  have len: "length (rowlist A) = n" "length (rowlist B) = n"
    using A B by (simp_all add: has_shape_def shape0_def)
  have rows: "\<forall>r \<in> set (rowlist A). length r = k" "\<forall>r \<in> set (rowlist B). length r = k"
    using A B by (simp_all add: has_shape_def wf_ndarray_def list_all_iff)
  have same: "\<forall>p \<in> set (zip (rowlist A) (rowlist B)). length (fst p) = length (snd p)"
  proof
    fix p assume "p \<in> set (zip (rowlist A) (rowlist B))"
    then have "fst p \<in> set (rowlist A)" "snd p \<in> set (rowlist B)"
      by (metis prod.collapse set_zip_leftD, metis prod.collapse set_zip_rightD)
    with rows show "length (fst p) = length (snd p)" by simp
  qed
  have "nd_binop f A B = Inr \<lparr>shape1 = bcast_dim (shape1 A) (shape1 B),
                            rowlist = map2 (bcast_list f) (rowlist A) (rowlist B)\<rparr>"
    using A B by (intro nd_binop_same_rows) (simp_all add: has_shape_def bcast_ok_def)
  moreover have "bcast_dim (shape1 A) (shape1 B) = shape1 A"
    using A B by (simp add: has_shape_def bcast_dim_def)
  ultimately show "nd_binop f A B = Inr (nd_zip f A B)"
    by (simp add: nd_zip_def map2_bcast_rows[OF same])
  have both: "length (fst p) = k \<and> length (snd p) = k"
    if "p \<in> set (zip (rowlist A) (rowlist B))" for p
  proof -
    from that have "fst p \<in> set (rowlist A)" "snd p \<in> set (rowlist B)"
      by (metis prod.collapse set_zip_leftD, metis prod.collapse set_zip_rightD)
    with rows show ?thesis by simp
  qed
  have "\<forall>r \<in> set (map2 (map2 f) (rowlist A) (rowlist B)). length r = k"
    using both by (auto simp: case_prod_unfold)
  then show "has_shape (nd_zip f A B) n k"
    using A len by (simp add: has_shape_def nd_zip_def shape0_def wf_ndarray_def list_all_iff)
qed

lemma nd_zip_nd_map:
  "nd_zip f (nd_map g A) (nd_map h B) = nd_zip (\<lambda>x y. f (g x) (h y)) A B"
proof -
  have inner: "map2 f (map g r) (map h r') = map2 (\<lambda>x y. f (g x) (h y)) r r'" for r r'
    by (simp add: zip_map_map comp_def case_prod_unfold)
  have "map2 (map2 f) (map (map g) (rowlist A)) (map (map h) (rowlist B))
      = map2 (\<lambda>r r'. map2 f (map g r) (map h r')) (rowlist A) (rowlist B)"
    by (simp add: zip_map_map comp_def case_prod_unfold)
  then show ?thesis by (simp add: nd_zip_def nd_map_def inner)
qed

lemma nd_zip_nd_map_right:
  "nd_zip f A (nd_map h B) = nd_zip (\<lambda>x y. f x (h y)) A B"
proof -
  have "map2 (map2 f) (rowlist A) (map (map h) (rowlist B))
      = map2 (\<lambda>r r'. map2 f r (map h r')) (rowlist A) (rowlist B)"
    by (simp add: zip_map2 comp_def case_prod_unfold)
  moreover have "map2 f r (map h r') = map2 (\<lambda>x y. f x (h y)) r r'" for r r'
    by (simp add: zip_map2 comp_def case_prod_unfold)
  ultimately show ?thesis by (simp add: nd_zip_def nd_map_def)
qed

lemma one_minus: "(1 - 0.9 :: real) = 0.1" by simp

lemma velocity_later:
  assumes "has_shape v n k" "has_shape g n k"
  shows "py_add (py_scale (Fin 0.9) (PyArr v)) (py_scale (Fin (1 - 0.9)) (PyArr g))
           = Inr (PyArr (velocity_update v g))"
proof -
  have "nd_binop (+) (nd_map (fmul (Fin 0.9)) v) (nd_map (fmul (Fin 0.1)) g)
          = Inr (nd_zip (+) (nd_map (fmul (Fin 0.9)) v) (nd_map (fmul (Fin 0.1)) g))"
    by (rule nd_binop_has_shape(1)) (rule has_shape_nd_map, rule assms)+
  then show ?thesis
    by (simp only: py_scale.simps py_add.simps one_minus sum.case nd_zip_nd_map velocity_update_def)
qed

lemma nd_zip_full_left:
  assumes "has_shape g n k" "\<And>y. f x y = h y"
  shows "nd_zip f (full n k x) g = nd_map h g"
proof -
  have len: "length (rowlist g) = n" and rows: "\<forall>r \<in> set (rowlist g). length r = k"
    using assms(1) by (simp_all add: has_shape_def shape0_def wf_ndarray_def list_all_iff)
  have "map2 (map2 f) (replicate n (replicate k x)) (rowlist g) = map (map h) (rowlist g)"
  proof (rule nth_equalityI)
    show "length (map2 (map2 f) (replicate n (replicate k x)) (rowlist g)) = length (map (map h) (rowlist g))"
      using len by simp
  next
    fix i assume "i < length (map2 (map2 f) (replicate n (replicate k x)) (rowlist g))"
    then have i: "i < n" using len by simp
    then have l: "length (rowlist g ! i) = k" using rows len by simp
    have "map2 f (replicate k x) (rowlist g ! i) = map h (rowlist g ! i)"
      using l by (intro nth_equalityI) (simp_all add: assms(2))
    then show "map2 (map2 f) (replicate n (replicate k x)) (rowlist g) ! i = map (map h) (rowlist g) ! i"
      using i len by simp
  qed
  moreover have "shape1 g = k" using assms(1) by (simp add: has_shape_def)
  ultimately show ?thesis by (simp add: nd_zip_def full_def nd_map_def)
qed

lemma velocity_first:
  assumes "has_shape g n k"
  shows "py_add (py_scale (Fin 0.9) (PyNum 0)) (py_scale (Fin (1 - 0.9)) (PyArr g))
           = Inr (PyArr (velocity_update (full n k 0) g))"
proof -
  have z: "fmul (Fin 0.9) 0 = 0" by (simp add: zero_fval_def)
  have "velocity_update (full n k 0) g = nd_map (\<lambda>y. fmul (Fin 0.1) y) g"
    unfolding velocity_update_def by (rule nd_zip_full_left[OF assms]) (simp add: z)
  moreover have "nd_map ((+) 0) (nd_map (fmul (Fin 0.1)) g) = nd_map (\<lambda>y. fmul (Fin 0.1) y) g"
    by (simp add: nd_map_def comp_def)
  ultimately show ?thesis
    by (simp only: py_scale.simps py_add.simps one_minus z)
qed

lemma has_shape_velocity_update:
  "has_shape v n k \<Longrightarrow> has_shape g n k \<Longrightarrow> has_shape (velocity_update v g) n k"
  unfolding velocity_update_def by (rule nd_binop_has_shape(2))

lemma descend_ok:
  assumes "has_shape U n k" "has_shape v n k"
  shows "nd_sub_py U (py_scale \<eta> (PyArr v)) = Inr (descend \<eta> U v)"
    and "has_shape (descend \<eta> U v) n k"
proof -
  have "nd_binop fsub U (nd_map (fmul \<eta>) v) = Inr (nd_zip fsub U (nd_map (fmul \<eta>) v))"
    by (rule nd_binop_has_shape(1)[OF assms(1) has_shape_nd_map[OF assms(2)]])
  then show "nd_sub_py U (py_scale \<eta> (PyArr v)) = Inr (descend \<eta> U v)"
    by (simp add: nd_zip_nd_map_right descend_def)
  show "has_shape (descend \<eta> U v) n k"
    unfolding descend_def by (rule nd_binop_has_shape(2)[OF assms])
qed

lemma same_table_refl: "same_table d d"
  by (simp add: same_table_def)

lemma same_table_trans: "same_table a b \<Longrightarrow> same_table b c \<Longrightarrow> same_table a c"
  by (simp add: same_table_def)

lemma same_table_with_prediction: "same_table (with_prediction d col) d"
  by (simp add: same_table_def with_prediction_def)

lemma df2matrix_same_table:
  "same_table d1 d2 \<Longrightarrow> df2matrix d1 n m ''rating'' = df2matrix d2 n m ''rating''"
  by (simp add: same_table_def df2matrix_def Let_def split: option.splits)

lemma trainable_same_table: "same_table d1 d2 \<Longrightarrow> trainable d1 n m = trainable d2 n m"
  by (simp add: same_table_def trainable_def in_range_def split: option.splits)

lemma trainable_iff: "trainable d n m \<longleftrightarrow> (\<exists>Y. df2matrix d n m ''rating'' = Inr Y)"
proof
  assume "trainable d n m"
  then obtain rs where "float_cols d ''rating'' = Some rs" "length rs = length (userId_movieId d)"
    "in_range d n m" by (auto simp: trainable_def split: option.splits)
  from df2matrix_ok[OF this] show "\<exists>Y. df2matrix d n m ''rating'' = Inr Y" by blast
next
  assume "\<exists>Y. df2matrix d n m ''rating'' = Inr Y"
  then obtain Y where "df2matrix d n m ''rating'' = Inr Y" ..
  from df2matrix_Inr_iff[OF this] show "trainable d n m" by (auto simp: trainable_def)
qed

lemma sparse_multiply_fst_same:
  "userId_movieId d1 = userId_movieId d2 \<Longrightarrow>
     fst (sparse_multiply d1 U V) = fst (sparse_multiply d2 U V)"
  by (simp add: sparse_multiply_def df2matrix_def Let_def split: sum.splits)

lemma gradient_fst_same:
  assumes "userId_movieId d1 = userId_movieId d2"
  shows "fst (gradient d1 Y U V) = fst (gradient d2 Y U V)"
proof -
  from sparse_multiply_fst_same[OF assms, of U V]
  show ?thesis
    by (cases "sparse_multiply d1 U V"; cases "sparse_multiply d2 U V")
       (auto simp: gradient_def Let_def split: sum.splits)
qed

lemma gradient_step:
  assumes Y: "df2matrix d n m ''rating'' = Inr Y"
    and U: "has_shape U n k" and V: "has_shape V m k"
  shows "\<exists>gu gm d'. gradient d Y U V = (Inr (gu, gm), d') \<and>
           has_shape gu n k \<and> has_shape gm m k \<and> same_table d' d"
proof -
  have n: "shape0 U = n" and m: "shape0 V = m" and kU: "shape1 U = k" and kV: "shape1 V = k"
    using U V by (simp_all add: has_shape_def)
  have bk: "bcast_ok (shape1 U) (shape1 V)" by (simp add: kU kV bcast_ok_def)
  from Y have Y': "df2matrix d (shape0 U) (shape0 V) ''rating'' = Inr Y" by (simp add: n m)
  define P where "P = \<lparr>sp_shape = (shape0 U, shape0 V),
      entries = sum_duplicates (zip (map nat_pair (userId_movieId d))
                  (bcast_predictions U V (userId_movieId d)))\<rparr>"
  define d' where "d' = with_prediction d (bcast_predictions U V (userId_movieId d))"
  define D where "D = \<lparr>sp_shape = (shape0 U, shape0 V),
      entries = filter (\<lambda>(p, v). v \<noteq> 0) (map (\<lambda>p. (p, residual Y P p)) (map fst (entries Y)))\<rparr>"
  note g = gradient_unfold(6)[OF Y' bk, folded P_def d'_def, folded D_def]
  obtain gu where gu: "scaled_product D V (nnz Y) = Inr gu" "shape1 gu = shape1 V"
    "shape0 gu = fst (sp_shape D)" "wf_ndarray gu"
    using scaled_product_shape[of D V "nnz Y"] by (auto simp: D_def)
  obtain gm where gm: "scaled_product (sp_transpose D) U (nnz Y) = Inr gm" "shape1 gm = shape1 U"
    "shape0 gm = fst (sp_shape (sp_transpose D))" "wf_ndarray gm"
    using scaled_product_shape[of "sp_transpose D" U "nnz Y"] by (auto simp: D_def sp_transpose_def)
  have "gradient d Y U V = (Inr (gu, gm), d')"
    unfolding g gu(1) gm(1) by simp
  moreover have "has_shape gu n k" using gu by (simp add: has_shape_def D_def n kV)
  moreover have "has_shape gm m k" using gm by (simp add: has_shape_def D_def sp_transpose_def m kU)
  moreover have "same_table d' d" unfolding d'_def by (rule same_table_with_prediction)
  ultimately show ?thesis by blast
qed

lemma cost_total:
  assumes t: "trainable d n m" and U: "has_shape U n k" and V: "has_shape V m k"
  shows "\<exists>c d'. cost (Some d) U V = (Inr (Some c), Some d') \<and> same_table d' d"
proof -
  have n: "shape0 U = n" and m: "shape0 V = m" and kU: "shape1 U = k" and kV: "shape1 V = k"
    using U V by (simp_all add: has_shape_def)
  have bk: "bcast_ok (shape1 U) (shape1 V)" by (simp add: kU kV bcast_ok_def)
  from t obtain rs where c: "float_cols d ''rating'' = Some rs"
    and l: "length rs = length (userId_movieId d)" and r: "in_range d (shape0 U) (shape0 V)"
    by (auto simp: trainable_def n m split: option.splits)
  from cost_ok[OF c l r bk] same_table_with_prediction show ?thesis by blast
qed

lemma cost_val_total:
  assumes "case df_val of None \<Rightarrow> True | Some v0 \<Rightarrow> trainable v0 n m"
    and "case df_val of None \<Rightarrow> dv = None
         | Some v0 \<Rightarrow> (case dv of None \<Rightarrow> False | Some v1 \<Rightarrow> same_table v1 v0)"
    and U: "has_shape U n k" and V: "has_shape V m k"
  shows "\<exists>c dv'. cost dv U V = (Inr c, dv') \<and>
           (case df_val of None \<Rightarrow> dv' = None
            | Some v0 \<Rightarrow> (case dv' of None \<Rightarrow> False | Some v1 \<Rightarrow> same_table v1 v0))"
proof (cases df_val)
  case None
  with assms(2) show ?thesis by simp
next
  case (Some v0)
  with assms(2) obtain v1 where dv: "dv = Some v1" and s: "same_table v1 v0"
    by (auto split: option.splits)
  from assms(1) Some have "trainable v1 n m" by (simp add: trainable_same_table[OF s])
  from cost_total[OF this U V] obtain c d' where
    "cost (Some v1) U V = (Inr (Some c), Some d')" "same_table d' v1" by blast
  with s Some dv show ?thesis by (auto intro: same_table_trans)
qed

lemma velocity_rel:
  assumes v: "vel_rel pv v n k" and g: "has_shape g n k"
  shows "py_add (py_scale (Fin 0.9) pv) (py_scale (Fin (1 - 0.9)) (PyArr g))
           = Inr (PyArr (velocity_update v g))"
    and "has_shape (velocity_update v g) n k"
proof -
  from v have hv: "has_shape v n k" by (auto simp: vel_rel_def has_shape_full)
  show "has_shape (velocity_update v g) n k" by (rule has_shape_velocity_update[OF hv g])
  from v show "py_add (py_scale (Fin 0.9) pv) (py_scale (Fin (1 - 0.9)) (PyArr g))
           = Inr (PyArr (velocity_update v g))"
    unfolding vel_rel_def
  proof (elim disjE conjE)
    assume "pv = PyNum 0" "v = full n k 0"
    then show ?thesis using velocity_first[OF g] by simp
  next
    assume "pv = PyArr v" "has_shape v n k"
    then show ?thesis using velocity_later[OF _ g] by simp
  qed
qed

lemma gd_iteration_step:
  assumes Y: "df2matrix df n m ''rating'' = Inr Y"
    and val: "case df_val of None \<Rightarrow> True | Some v0 \<Rightarrow> trainable v0 n m"
    and rel: "gd_rel df df_val n m k (U, V, vu, vm, d, dv, printed) (U, V, sU, sV)"
  shows "\<exists>U' V' sU' sV' d' dv' line.
     gd_iteration Y \<eta> i (U, V, vu, vm, d, dv, printed)
       = Inr (U', V', PyArr sU', PyArr sV', d', dv', printed @ line) \<and>
     transition df Y \<eta> (U, V, sU, sV) = Inr (U', V', sU', sV') \<and>
     gd_rel df df_val n m k (U', V', PyArr sU', PyArr sV', d', dv', printed @ line)
       (U', V', sU', sV') \<and>
     map fst line = (if i mod 50 = 0 then [i] else [])"
proof -
  from rel have hU: "has_shape U n k" and hV: "has_shape V m k"
    and ru: "vel_rel vu sU n k" and rm: "vel_rel vm sV m k"
    and st: "same_table d df"
    and rv: "case df_val of None \<Rightarrow> dv = None
         | Some v0 \<Rightarrow> (case dv of None \<Rightarrow> False | Some v1 \<Rightarrow> same_table v1 v0)"
    by (simp_all add: gd_rel_def)
  have Yd: "df2matrix d n m ''rating'' = Inr Y"
    using Y df2matrix_same_table[OF st] by simp
  from gradient_step[OF Yd hU hV] obtain gu gm d1 where
    g: "gradient d Y U V = (Inr (gu, gm), d1)" and hgu: "has_shape gu n k"
    and hgm: "has_shape gm m k" and st1: "same_table d1 d" by blast
  have keys: "userId_movieId d = userId_movieId df" using st by (simp add: same_table_def)
  have gs: "fst (gradient df Y U V) = Inr (gu, gm)"
    using gradient_fst_same[OF keys, of Y U V] g by simp
  define sU' where "sU' = velocity_update sU gu"
  define sV' where "sV' = velocity_update sV gm"
  define U' where "U' = descend \<eta> U sU'"
  define V' where "V' = descend \<eta> V sV'"
  note vu = velocity_rel[OF ru hgu, folded sU'_def]
  note vm = velocity_rel[OF rm hgm, folded sV'_def]
  note du = descend_ok[OF hU vu(2), of \<eta>, folded U'_def]
  note dm = descend_ok[OF hV vm(2), of \<eta>, folded V'_def]
  have tr: "transition df Y \<eta> (U, V, sU, sV) = Inr (U', V', sU', sV')"
    by (simp add: transition_def gs Let_def sU'_def sV'_def U'_def V'_def)
  have rel0: "vel_rel (PyArr sU') sU' n k" "vel_rel (PyArr sV') sV' m k"
    using vu(2) vm(2) by (simp_all add: vel_rel_def)
  have st1': "same_table d1 df" by (rule same_table_trans[OF st1 st])
  show ?thesis
  proof (cases "i mod 50 = 0")
    case False
    have it: "gd_iteration Y \<eta> i (U, V, vu, vm, d, dv, printed)
          = Inr (U', V', PyArr sU', PyArr sV', d1, dv, printed @ [])"
      by (simp only: gd_iteration_def prod.case sum.case g vu(1) vm(1) du(1) dm(1) False
                     if_False append_Nil2)
    have "gd_rel df df_val n m k (U', V', PyArr sU', PyArr sV', d1, dv, printed @ []) (U', V', sU', sV')"
      using du(2) dm(2) rel0 st1' rv by (simp add: gd_rel_def)
    with it tr False show ?thesis by (intro exI[of _ "[]"] exI conjI) simp_all
  next
    case True
    have t1: "trainable d1 n m"
      using trainable_iff[of df n m] Y trainable_same_table[OF st1'] by auto
    from cost_total[OF t1 du(2) dm(2)] obtain c1 d2 where
      c1: "cost (Some d1) U' V' = (Inr (Some c1), Some d2)" and st2: "same_table d2 d1" by blast
    from cost_val_total[OF val rv du(2) dm(2)] obtain c2 dv' where
      c2: "cost dv U' V' = (Inr c2, dv')" and rv': "case df_val of None \<Rightarrow> dv' = None
            | Some v0 \<Rightarrow> (case dv' of None \<Rightarrow> False | Some v1 \<Rightarrow> same_table v1 v0)" by blast
    have it: "gd_iteration Y \<eta> i (U, V, vu, vm, d, dv, printed)
          = Inr (U', V', PyArr sU', PyArr sV', d2, dv', printed @ [(i, Some c1, c2)])"
      by (simp only: gd_iteration_def prod.case sum.case g vu(1) vm(1) du(1) dm(1) True
                     simp_thms if_True c1 c2 option.case)
    have "gd_rel df df_val n m k
            (U', V', PyArr sU', PyArr sV', d2, dv', printed @ [(i, Some c1, c2)]) (U', V', sU', sV')"
      using du(2) dm(2) rel0 same_table_trans[OF st2 st1'] rv' by (simp add: gd_rel_def)
    with it tr True show ?thesis by (intro exI[of _ "[(i, Some c1, c2)]"] exI conjI) simp_all
  qed
qed

lemma gd_loop_simulation:
  assumes Y: "df2matrix df n m ''rating'' = Inr Y"
    and val: "case df_val of None \<Rightarrow> True | Some v0 \<Rightarrow> trainable v0 n m"
  shows "gd_rel df df_val n m k (U, V, vu, vm, d, dv, printed) (U, V, sU, sV) \<Longrightarrow>
     \<exists>U' V' vu' vm' sU' sV' d' dv' lines.
       gd_loop Y \<eta> idx (U, V, vu, vm, d, dv, printed)
         = Inr (U', V', vu', vm', d', dv', printed @ lines) \<and>
       transitions (length idx) (transition df Y \<eta>) (U, V, sU, sV) = Inr (U', V', sU', sV') \<and>
       map fst lines = filter (\<lambda>i. i mod 50 = 0) idx"
proof (induction idx arbitrary: U V vu vm d dv printed sU sV)
  case Nil
  then show ?case by (intro exI[of _ "[]"] exI conjI) simp_all
next
  case (Cons i idx)
  from gd_iteration_step[OF Y val Cons.prems, of \<eta> i]
  obtain U1 V1 sU1 sV1 d1 dv1 line where
    it: "gd_iteration Y \<eta> i (U, V, vu, vm, d, dv, printed)
          = Inr (U1, V1, PyArr sU1, PyArr sV1, d1, dv1, printed @ line)"
    and tr: "transition df Y \<eta> (U, V, sU, sV) = Inr (U1, V1, sU1, sV1)"
    and rel: "gd_rel df df_val n m k (U1, V1, PyArr sU1, PyArr sV1, d1, dv1, printed @ line)
                (U1, V1, sU1, sV1)"
    and ln: "map fst line = (if i mod 50 = 0 then [i] else [])" by blast
  from Cons.IH[OF rel] obtain U' V' vu' vm' sU' sV' d' dv' lines where
    lp: "gd_loop Y \<eta> idx (U1, V1, PyArr sU1, PyArr sV1, d1, dv1, printed @ line)
          = Inr (U', V', vu', vm', d', dv', (printed @ line) @ lines)"
    and ts: "transitions (length idx) (transition df Y \<eta>) (U1, V1, sU1, sV1) = Inr (U', V', sU', sV')"
    and ls: "map fst lines = filter (\<lambda>i. i mod 50 = 0) idx" by blast
  have 1: "gd_loop Y \<eta> (i # idx) (U, V, vu, vm, d, dv, printed)
         = Inr (U', V', vu', vm', d', dv', printed @ (line @ lines))"
    by (simp add: it lp)
  have 2: "transitions (length (i # idx)) (transition df Y \<eta>) (U, V, sU, sV) = Inr (U', V', sU', sV')"
    by (simp add: tr ts)
  have 3: "map fst (line @ lines) = filter (\<lambda>i. i mod 50 = 0) (i # idx)"
    by (simp add: ln ls)
  from 1 2 3 show ?case by blast
qed

text \<open>
  Claim C4. Let the table build into \<open>Y\<close> with the embeddings' row counts as bounds,
  let \<open>U\<^sub>0\<close> and \<open>V\<^sub>0\<close> have the same number of factors, and let the validation
  table, if there is one, be a table the builder accepts. Then for every iteration count
  \<open>T\<close> and learning rate \<open>\<eta>\<close> the trainer returns normally, and the embeddings it
  returns are those reached from \<open>(U\<^sub>0, V\<^sub>0)\<close> and zero velocities by exactly \<open>T\<close>
  transitions, each of which takes the gradients against that one \<open>Y\<close>, updates both
  velocities to \<open>0.9 v + 0.1 grad\<close> and then subtracts \<open>\<eta> v\<close> from both embeddings;
  the costs are reported at the iterations divisible by 50 and change nothing else.
\<close>

theorem gradient_descent_fixed_budget:
  assumes Y: "df2matrix df (shape0 U) (shape0 V) ''rating'' = Inr Y"
    and wf: "wf_ndarray U" "wf_ndarray V" "shape1 U = shape1 V"
    and val: "case df_val of None \<Rightarrow> True | Some v0 \<Rightarrow> trainable v0 (shape0 U) (shape0 V)"
  shows "\<exists>U_T V_T v_U v_V df' df_val' printed.
     transitions T (transition df Y \<eta>)
        (U, V, full (shape0 U) (shape1 U) 0, full (shape0 V) (shape1 V) 0)
       = Inr (U_T, V_T, v_U, v_V) \<and>
     gradient_descent df U V (int T) \<eta> df_val = Inr ((U_T, V_T), df', df_val', printed) \<and>
     map fst printed = filter (\<lambda>i. i mod 50 = 0) [0..<T]"
proof -
  let ?n = "shape0 U" and ?m = "shape0 V" and ?k = "shape1 U"
  have rel: "gd_rel df df_val ?n ?m ?k (U, V, PyNum 0, PyNum 0, df, df_val, [])
               (U, V, full ?n ?k 0, full ?m ?k 0)"
    using wf by (auto simp: gd_rel_def has_shape_def vel_rel_def same_table_refl split: option.splits)
  from gd_loop_simulation[OF Y val rel, of \<eta> "[0..<T]"]
  obtain U' V' vu' vm' sU' sV' d' dv' lines where
    lp: "gd_loop Y \<eta> [0..<T] (U, V, PyNum 0, PyNum 0, df, df_val, [])
          = Inr (U', V', vu', vm', d', dv', [] @ lines)"
    and ts: "transitions (length [0..<T]) (transition df Y \<eta>) (U, V, full ?n ?k 0, full ?m ?k 0)
          = Inr (U', V', sU', sV')"
    and ls: "map fst lines = filter (\<lambda>i. i mod 50 = 0) [0..<T]" by blast
  have gd: "gradient_descent df U V (int T) \<eta> df_val = Inr ((U', V'), d', dv', lines)"
    using lp by (simp add: gradient_descent_def Y)
  from ts have ts': "transitions T (transition df Y \<eta>)
        (U, V, full ?n ?k 0, full ?m (shape1 V) 0) = Inr (U', V', sU', sV')"
    using wf(3) by simp
  from ts' gd ls show ?thesis by blast
qed

theorem gradient_descent_fixed_budget_witness:
  "\<exists>U_T V_T v_U v_V df' df_val' printed.
     transitions 2
        (transition example_table
           \<lparr>sp_shape = (2, 2), entries = [((0, 0), Fin 5), ((1, 1), Fin 3)]\<rparr> (Fin 0.01))
        (eye2, eye2, full 2 2 0, full 2 2 0)
       = Inr (U_T, V_T, v_U, v_V) \<and>
     gradient_descent example_table eye2 eye2 2 (Fin 0.01) None
       = Inr ((U_T, V_T), df', df_val', printed) \<and>
     map fst printed = [0]"
proof -
  let ?Y = "\<lparr>sp_shape = (2, 2), entries = [((0, 0), Fin 5), ((1, 1), Fin 3)]\<rparr>"
  have sh: "shape0 eye2 = 2" "shape1 eye2 = 2" by (simp_all add: eye2_def shape0_def)
  have y: "df2matrix example_table (shape0 eye2) (shape0 eye2) ''rating'' = Inr ?Y"
    by (simp add: sh example_table_def df2matrix_def sum_duplicates_def nat_pair_def)
  have w: "wf_ndarray eye2" by (simp add: eye2_def wf_ndarray_def)
  have v: "case None of None \<Rightarrow> True | Some v0 \<Rightarrow> trainable v0 (shape0 eye2) (shape0 eye2)"
    by simp
  have f: "filter (\<lambda>i. i mod 50 = 0) [0..<2] = [0 :: nat]" by code_simp
  have i: "int 2 = 2" by simp
  from gradient_descent_fixed_budget[OF y w w refl v, of 2 "Fin 0.01"]
  show ?thesis unfolding sh f i .
qed

end
